theory Spec2Isabelle
  imports Complex_Main
begin

section \<open>JavaScript numbers\<close>

text \<open>
  The viewer is JavaScript: every number is an IEEE-754 binary64 value.  A number is
  modelled as a finite real, one of the two infinities, or NaN.  The sign of zero is not
  modelled (\<open>-0\<close> and \<open>+0\<close> are the one value \<open>Fin 0\<close>).  An array element or
  an object property that is not there reads as \<open>undefined\<close>; arithmetic and comparison
  convert it to NaN.
\<close>

datatype jsnum = Fin real | PInf | NInf | NaN

datatype jsval = Undefined | Num jsnum

fun toNumber :: "jsval \<Rightarrow> jsnum" where
  "toNumber Undefined = NaN"
| "toNumber (Num n) = n"

text \<open>
  Every arithmetic operation computes the exact result and rounds it.  The rounding is a
  parameter of the operations: \<open>round_double\<close> is binary64 round-to-nearest, ties to
  even, with gradual underflow and overflow to infinity (the arithmetic the program runs
  on); \<open>exact\<close> does not round (the arithmetic of the formulas read over the reals).
\<close>

type_synonym rounding = "real \<Rightarrow> jsnum"

definition rne :: "real \<Rightarrow> int" where
  "rne r = (let f = \<lfloor>r\<rfloor>; d = r - of_int f
            in if d < 1 / 2 then f else if 1 / 2 < d then f + 1
               else if even f then f else f + 1)"

definition expo :: "real \<Rightarrow> int" where
  "expo x = \<lfloor>log 2 \<bar>x\<bar>\<rfloor>"

definition overflow_threshold :: real where
  "overflow_threshold = 2 ^ 1024"

definition round_double :: rounding where
  "round_double x =
     (if x = 0 then Fin 0
      else let e = max (expo x) (- 1022);
               q = 2 powi (e - 52);
               y = q * of_int (rne (x / q))
           in if overflow_threshold \<le> \<bar>y\<bar> then (if 0 < x then PInf else NInf) else Fin y)"

definition exact :: rounding where
  "exact x = Fin x"

fun js_neg :: "jsnum \<Rightarrow> jsnum" where
  "js_neg (Fin x) = Fin (- x)"
| "js_neg PInf = NInf"
| "js_neg NInf = PInf"
| "js_neg NaN = NaN"

fun js_add :: "rounding \<Rightarrow> jsnum \<Rightarrow> jsnum \<Rightarrow> jsnum" where
  "js_add rd (Fin x) (Fin y) = rd (x + y)"
| "js_add rd NaN b = NaN"
| "js_add rd a NaN = NaN"
| "js_add rd PInf NInf = NaN"
| "js_add rd NInf PInf = NaN"
| "js_add rd PInf b = PInf"
| "js_add rd a PInf = PInf"
| "js_add rd NInf b = NInf"
| "js_add rd a NInf = NInf"

definition js_sub :: "rounding \<Rightarrow> jsnum \<Rightarrow> jsnum \<Rightarrow> jsnum" where
  "js_sub rd a b = js_add rd a (js_neg b)"

fun is_zero :: "jsnum \<Rightarrow> bool" where
  "is_zero (Fin x) = (x = 0)"
| "is_zero a = False"

fun is_pos :: "jsnum \<Rightarrow> bool" where
  "is_pos (Fin x) = (0 \<le> x)"
| "is_pos PInf = True"
| "is_pos a = False"

definition signed_inf :: "bool \<Rightarrow> jsnum" where
  "signed_inf p = (if p then PInf else NInf)"

fun js_mul :: "rounding \<Rightarrow> jsnum \<Rightarrow> jsnum \<Rightarrow> jsnum" where
  "js_mul rd (Fin x) (Fin y) = rd (x * y)"
| "js_mul rd NaN b = NaN"
| "js_mul rd a NaN = NaN"
| "js_mul rd a b = (if is_zero a \<or> is_zero b then NaN else signed_inf (is_pos a = is_pos b))"

fun js_div :: "rounding \<Rightarrow> jsnum \<Rightarrow> jsnum \<Rightarrow> jsnum" where
  "js_div rd (Fin x) (Fin y) =
     (if y = 0 then (if x = 0 then NaN else signed_inf (0 < x)) else rd (x / y))"
| "js_div rd NaN b = NaN"
| "js_div rd a NaN = NaN"
| "js_div rd (Fin x) b = Fin 0"
| "js_div rd a (Fin y) = signed_inf (is_pos a = (0 \<le> y))"
| "js_div rd a b = NaN"

fun js_lt :: "jsnum \<Rightarrow> jsnum \<Rightarrow> bool" where
  "js_lt (Fin x) (Fin y) = (x < y)"
| "js_lt NaN b = False"
| "js_lt a NaN = False"
| "js_lt NInf NInf = False"
| "js_lt NInf b = True"
| "js_lt a NInf = False"
| "js_lt PInf b = False"
| "js_lt a PInf = True"

definition js_gt :: "jsnum \<Rightarrow> jsnum \<Rightarrow> bool" where
  "js_gt a b = js_lt b a"

fun js_eq :: "jsnum \<Rightarrow> jsnum \<Rightarrow> bool" where
  "js_eq (Fin x) (Fin y) = (x = y)"
| "js_eq PInf PInf = True"
| "js_eq NInf NInf = True"
| "js_eq a b = False"

definition js_ge :: "jsnum \<Rightarrow> jsnum \<Rightarrow> bool" where
  "js_ge a b = (js_lt b a \<or> js_eq a b)"

fun isFinite :: "jsnum \<Rightarrow> bool" where
  "isFinite (Fin x) = True"
| "isFinite a = False"

fun Math_abs :: "jsnum \<Rightarrow> jsnum" where
  "Math_abs (Fin x) = Fin \<bar>x\<bar>"
| "Math_abs PInf = PInf"
| "Math_abs NInf = PInf"
| "Math_abs NaN = NaN"

fun Math_sign :: "jsnum \<Rightarrow> jsnum" where
  "Math_sign (Fin x) = Fin (sgn x)"
| "Math_sign PInf = Fin 1"
| "Math_sign NInf = Fin (- 1)"
| "Math_sign NaN = NaN"

fun Math_min :: "jsnum \<Rightarrow> jsnum \<Rightarrow> jsnum" where
  "Math_min NaN b = NaN"
| "Math_min a NaN = NaN"
| "Math_min a b = (if js_lt b a then b else a)"

fun Math_max :: "jsnum \<Rightarrow> jsnum \<Rightarrow> jsnum" where
  "Math_max NaN b = NaN"
| "Math_max a NaN = NaN"
| "Math_max a b = (if js_lt a b then b else a)"

text \<open>\<open>Math.round\<close> rounds to the nearest integer, a tie towards plus infinity.\<close>

fun Math_round :: "jsnum \<Rightarrow> jsnum" where
  "Math_round (Fin x) = Fin (of_int \<lfloor>x + 1 / 2\<rfloor>)"
| "Math_round a = a"

fun Math_sqrt :: "rounding \<Rightarrow> jsnum \<Rightarrow> jsnum" where
  "Math_sqrt rd (Fin x) = (if x < 0 then NaN else rd (sqrt x))"
| "Math_sqrt rd PInf = PInf"
| "Math_sqrt rd a = NaN"

fun Math_hypot :: "rounding \<Rightarrow> jsnum \<Rightarrow> jsnum \<Rightarrow> jsnum" where
  "Math_hypot rd (Fin x) (Fin y) = rd (sqrt (x * x + y * y))"
| "Math_hypot rd PInf b = PInf"
| "Math_hypot rd NInf b = PInf"
| "Math_hypot rd a PInf = PInf"
| "Math_hypot rd a NInf = PInf"
| "Math_hypot rd a b = NaN"

fun Math_asin :: "rounding \<Rightarrow> jsnum \<Rightarrow> jsnum" where
  "Math_asin rd (Fin x) = (if - 1 \<le> x \<and> x \<le> 1 then rd (arcsin x) else NaN)"
| "Math_asin rd a = NaN"

definition atan2 :: "real \<Rightarrow> real \<Rightarrow> real" where
  "atan2 y x =
     (if 0 < x then arctan (y / x)
      else if x < 0 then (if 0 \<le> y then arctan (y / x) + pi else arctan (y / x) - pi)
      else if 0 < y then pi / 2 else if y < 0 then - (pi / 2) else 0)"

fun Math_atan2 :: "rounding \<Rightarrow> jsnum \<Rightarrow> jsnum \<Rightarrow> jsnum" where
  "Math_atan2 rd (Fin y) (Fin x) = rd (atan2 y x)"
| "Math_atan2 rd NaN b = NaN"
| "Math_atan2 rd a NaN = NaN"
| "Math_atan2 rd (Fin y) PInf = Fin 0"
| "Math_atan2 rd (Fin y) NInf = rd (if 0 \<le> y then pi else - pi)"
| "Math_atan2 rd PInf (Fin x) = rd (pi / 2)"
| "Math_atan2 rd NInf (Fin x) = rd (- (pi / 2))"
| "Math_atan2 rd PInf PInf = rd (pi / 4)"
| "Math_atan2 rd PInf NInf = rd (3 * pi / 4)"
| "Math_atan2 rd NInf PInf = rd (- (pi / 4))"
| "Math_atan2 rd NInf NInf = rd (- (3 * pi / 4))"

text \<open>
  The remainder \<open>a % b\<close> takes the sign of the dividend and is exact in binary64.
\<close>

definition trunc :: "real \<Rightarrow> int" where
  "trunc r = (if 0 \<le> r then \<lfloor>r\<rfloor> else \<lceil>r\<rceil>)"

fun js_mod :: "jsnum \<Rightarrow> jsnum \<Rightarrow> jsnum" where
  "js_mod (Fin x) (Fin y) = (if y = 0 then NaN else Fin (x - y * of_int (trunc (x / y))))"
| "js_mod (Fin x) PInf = Fin x"
| "js_mod (Fin x) NInf = Fin x"
| "js_mod a b = NaN"

text \<open>\<open>Math.PI\<close> is the binary64 value nearest to \<open>\<pi>\<close>, \<open>0x400921FB54442D18\<close>.\<close>

definition Math_PI :: jsnum where
  "Math_PI = Fin (884279719003555 / 2 ^ 48)"

section \<open>Attitude math\<close>

text \<open>
  \<open>quatToEuler\<close> takes the array \<open>[qw, qx, qy, qz]\<close> and returns
  \<open>[roll, pitch, yaw]\<close>.  \<open>quat_sinp\<close> is its local constant \<open>sinp\<close>.
\<close>

type_synonym quat = "jsval \<times> jsval \<times> jsval \<times> jsval"

type_synonym vec3 = "jsval \<times> jsval \<times> jsval"

definition quat_sinp :: "rounding \<Rightarrow> quat \<Rightarrow> jsnum" where
  "quat_sinp rd q =
     (case q of (w, x, y, z) \<Rightarrow>
        js_mul rd (Fin 2)
          (js_sub rd (js_mul rd (toNumber w) (toNumber y)) (js_mul rd (toNumber z) (toNumber x))))"

definition quatToEuler :: "rounding \<Rightarrow> quat \<Rightarrow> jsnum \<times> jsnum \<times> jsnum" where
  "quatToEuler rd q =
     (case q of (qw, qx, qy, qz) \<Rightarrow>
        let w = toNumber qw; x = toNumber qx; y = toNumber qy; z = toNumber qz;
            sinr_cosp = js_mul rd (Fin 2) (js_add rd (js_mul rd w x) (js_mul rd y z));
            cosr_cosp = js_sub rd (Fin 1)
                          (js_mul rd (Fin 2) (js_add rd (js_mul rd x x) (js_mul rd y y)));
            roll = Math_atan2 rd sinr_cosp cosr_cosp;
            sinp = quat_sinp rd q;
            pitch = (if js_ge (Math_abs sinp) (Fin 1)
                     then js_mul rd (Math_sign sinp) (js_div rd Math_PI (Fin 2))
                     else Math_asin rd sinp);
            siny_cosp = js_mul rd (Fin 2) (js_add rd (js_mul rd w z) (js_mul rd x y));
            cosy_cosp = js_sub rd (Fin 1)
                          (js_mul rd (Fin 2) (js_add rd (js_mul rd y y) (js_mul rd z z)));
            yaw = Math_atan2 rd siny_cosp cosy_cosp
        in (roll, pitch, yaw))"

definition computeEulerAll :: "rounding \<Rightarrow> quat list \<Rightarrow> (jsnum \<times> jsnum \<times> jsnum) list" where
  "computeEulerAll rd quats = map (quatToEuler rd) quats"

definition pitch_of :: "jsnum \<times> jsnum \<times> jsnum \<Rightarrow> jsnum" where
  "pitch_of e = fst (snd e)"

text \<open>
  The round-trip property compares two rotations of a test vector.  Neither rotation is
  code of the viewer; both are written from the property's words.  \<open>rotate_quat\<close> is
  the rotation a scalar-first unit quaternion \<open>(w, x, y, z)\<close> stands for.
  \<open>rotate_euler\<close> rebuilds the rotation from \<open>(roll, pitch, yaw)\<close> in the intrinsic
  aerospace sequence: yaw about z, then pitch about the new y, then roll about the new
  x, which is the product \<open>Rz(yaw) Ry(pitch) Rx(roll)\<close>.  \<open>round_trip_error\<close> is the
  Euclidean distance between the two images of the test vector, when \<open>quatToEuler\<close>
  returns three finite angles.
\<close>

type_synonym rvec = "real \<times> real \<times> real"

type_synonym rquat = "real \<times> real \<times> real \<times> real"

definition unit_quat :: "rquat \<Rightarrow> bool" where
  "unit_quat q = (case q of (w, x, y, z) \<Rightarrow> w\<^sup>2 + x\<^sup>2 + y\<^sup>2 + z\<^sup>2 = 1)"

definition rotate_quat :: "rquat \<Rightarrow> rvec \<Rightarrow> rvec" where
  "rotate_quat q v =
     (case q of (w, x, y, z) \<Rightarrow> case v of (a, b, c) \<Rightarrow>
        ((1 - 2 * (y\<^sup>2 + z\<^sup>2)) * a + 2 * (x * y - w * z) * b + 2 * (x * z + w * y) * c,
         2 * (x * y + w * z) * a + (1 - 2 * (x\<^sup>2 + z\<^sup>2)) * b + 2 * (y * z - w * x) * c,
         2 * (x * z - w * y) * a + 2 * (y * z + w * x) * b + (1 - 2 * (x\<^sup>2 + y\<^sup>2)) * c))"

definition rot_x :: "real \<Rightarrow> rvec \<Rightarrow> rvec" where
  "rot_x t v = (case v of (a, b, c) \<Rightarrow> (a, cos t * b - sin t * c, sin t * b + cos t * c))"

definition rot_y :: "real \<Rightarrow> rvec \<Rightarrow> rvec" where
  "rot_y t v = (case v of (a, b, c) \<Rightarrow> (cos t * a + sin t * c, b, - sin t * a + cos t * c))"

definition rot_z :: "real \<Rightarrow> rvec \<Rightarrow> rvec" where
  "rot_z t v = (case v of (a, b, c) \<Rightarrow> (cos t * a - sin t * b, sin t * a + cos t * b, c))"

definition rotate_euler :: "real \<times> real \<times> real \<Rightarrow> rvec \<Rightarrow> rvec" where
  "rotate_euler e v = (case e of (roll, pitch, yaw) \<Rightarrow> rot_z yaw (rot_y pitch (rot_x roll v)))"

definition dist3 :: "rvec \<Rightarrow> rvec \<Rightarrow> real" where
  "dist3 u v =
     (case u of (a, b, c) \<Rightarrow> case v of (a', b', c') \<Rightarrow>
        sqrt ((a - a')\<^sup>2 + (b - b')\<^sup>2 + (c - c')\<^sup>2))"

definition quat_of :: "rquat \<Rightarrow> quat" where
  "quat_of q = (case q of (w, x, y, z) \<Rightarrow> (Num (Fin w), Num (Fin x), Num (Fin y), Num (Fin z)))"

definition round_trip_error :: "rounding \<Rightarrow> rquat \<Rightarrow> rvec \<Rightarrow> real option" where
  "round_trip_error rd q v =
     (case quatToEuler rd (quat_of q) of
        (Fin roll, Fin pitch, Fin yaw) \<Rightarrow>
          Some (dist3 (rotate_euler (roll, pitch, yaw) v) (rotate_quat q v))
      | _ \<Rightarrow> None)"

text \<open>
  The components of a quaternion read from a file are binary64 values, and their squares
  add up to 1 only up to rounding.  \<open>unit_defect\<close> is the distance of the squared norm
  from 1, and \<open>pitch_sine\<close> is the sine of the pitch of the rotation the quaternion
  stands for, \<open>2 * (w * y - z * x)\<close> of the normalised quaternion.
\<close>

definition quat_norm2 :: "rquat \<Rightarrow> real" where
  "quat_norm2 q = (case q of (w, x, y, z) \<Rightarrow> w\<^sup>2 + x\<^sup>2 + y\<^sup>2 + z\<^sup>2)"

definition unit_defect :: "rquat \<Rightarrow> real" where
  "unit_defect q = \<bar>quat_norm2 q - 1\<bar>"

definition pitch_sine :: "rquat \<Rightarrow> real" where
  "pitch_sine q = (case q of (w, x, y, z) \<Rightarrow> 2 * (w * y - z * x) / quat_norm2 q)"

text \<open>The orientation with pitch 90 degrees and yaw 90 degrees, a unit quaternion.\<close>

definition q_gimbal :: rquat where
  "q_gimbal = (1 / 2, - (1 / 2), 1 / 2, 1 / 2)"

text \<open>
  \<open>half_pi\<close> is the binary64 value of \<open>Math.PI / 2\<close>, the pitch \<open>quatToEuler\<close> returns
  (with the sign of \<open>sinp\<close>) when \<open>sinp\<close> reaches magnitude 1.  \<open>cos_poly\<close> is the
  Maclaurin polynomial of the cosine up to degree 24, in the square of the angle; it
  bounds the cosine of \<open>half_pi\<close>.
\<close>

definition half_pi :: real where
  "half_pi = 884279719003555 / 2 ^ 49"

definition cos_poly :: "real \<Rightarrow> real" where
  "cos_poly u = 1 - u / 2 * (1 - u / 12 * (1 - u / 30 * (1 - u / 56 * (1 - u / 90 *
                 (1 - u / 132 * (1 - u / 182 * (1 - u / 240 * (1 - u / 306 *
                 (1 - u / 380 * (1 - u / 462 * (1 - u / 552)))))))))))"
section \<open>Time-series renderer: the vertical scale\<close>

text \<open>
  \<open>extent\<close> scans the values once; \<open>extent_loop\<close> is its \<open>for ... of\<close> loop over the
  pair \<open>(lo, hi)\<close>, started at \<open>(Infinity, -Infinity)\<close>.  A comparison with
  \<open>undefined\<close> or NaN is false, so such a value changes neither bound.
\<close>

datatype error = TypeError | LoadError string

fun extent_loop :: "jsval list \<Rightarrow> jsnum \<times> jsnum \<Rightarrow> jsnum \<times> jsnum" where
  "extent_loop [] (lo, hi) = (lo, hi)"
| "extent_loop (v # vs) (lo, hi) =
     (let lo' = (if js_lt (toNumber v) lo then toNumber v else lo);
          hi' = (if js_gt (toNumber v) hi then toNumber v else hi)
      in extent_loop vs (lo', hi'))"

definition extent :: "rounding \<Rightarrow> jsval list \<Rightarrow> jsnum \<times> jsnum" where
  "extent rd arr =
     (case extent_loop arr (PInf, NInf) of (lo, hi) \<Rightarrow>
        if \<not> isFinite lo \<or> \<not> isFinite hi then (Fin 0, Fin 1)
        else if js_eq lo hi then (js_sub rd lo (Fin 1), js_add rd hi (Fin 1))
        else (lo, hi))"

definition pad :: "rounding \<Rightarrow> jsnum \<times> jsnum \<Rightarrow> jsnum \<Rightarrow> jsnum \<times> jsnum" where
  "pad rd e p =
     (case e of (lo, hi) \<Rightarrow>
        let d = js_sub rd hi lo
        in (js_sub rd lo (js_mul rd p d), js_add rd hi (js_mul rd p d)))"

text \<open>
  \<open>drawLines\<close> flattens the three components of the series, component by component,
  over the indices of \<open>t\<close>, and pads the extent by the default fraction \<open>0.05\<close>.
  \<open>drawLines_scale\<close> is the pair \<open>[ymin, ymax]\<close> it computes; reading a component of a
  sample that is not there throws.  \<open>scale_y\<close> is its pixel mapping \<open>y\<close>, with
  \<open>mt = margin.t\<close>.
\<close>

fun component :: "nat \<Rightarrow> vec3 \<Rightarrow> jsval" where
  "component k (a, b, c) = (if k = 0 then a else if k = 1 then b else c)"

definition flat_series :: "nat \<Rightarrow> vec3 list \<Rightarrow> jsval list" where
  "flat_series n series3 = concat (map (\<lambda>k. map (\<lambda>i. component k (series3 ! i)) [0..<n]) [0, 1, 2])"

definition drawLines_scale :: "rounding \<Rightarrow> nat \<Rightarrow> vec3 list \<Rightarrow> error + jsnum \<times> jsnum" where
  "drawLines_scale rd n series3 =
     (if length series3 < n then Inl TypeError
      else Inr (pad rd (extent rd (flat_series n series3)) (rd (5 / 100))))"

definition scale_y :: "rounding \<Rightarrow> jsnum \<times> jsnum \<Rightarrow> jsnum \<Rightarrow> jsnum \<Rightarrow> jsnum \<Rightarrow> jsnum" where
  "scale_y rd e mt ih v =
     (case e of (ymin, ymax) \<Rightarrow>
        js_sub rd (js_add rd mt ih)
          (js_mul rd (js_div rd (js_sub rd v ymin) (js_sub rd ymax ymin)) ih))"

text \<open>Two samples whose three components all equal \<open>1e17\<close>.\<close>

definition huge_series :: "vec3 list" where
  "huge_series = replicate 2 (Num (Fin (10 ^ 17)), Num (Fin (10 ^ 17)), Num (Fin (10 ^ 17)))"

section \<open>Trajectory loader\<close>

text \<open>
  The record both loaders return: \<open>{ t, pos, vel, quat, omega, fuel }\<close>.  A cell is a
  number or \<open>undefined\<close>.
\<close>

record parsed =
  traj_t :: "jsval list"
  traj_pos :: "vec3 list"
  traj_vel :: "vec3 list"
  traj_quat :: "quat list"
  traj_omega :: "vec3 list"
  traj_fuel :: "jsval list"

subsection \<open>Delimited text\<close>

text \<open>
  Text is a list of characters.  \<open>trim\<close> removes white space at both ends (the ASCII
  white-space characters; the others that JavaScript also trims are outside \<open>char\<close>).
  \<open>split_char\<close> is \<open>String.prototype.split\<close> with a one-character separator: it
  returns at least one piece.  \<open>split_lines\<close> is \<open>split(/\\r?\\n/)\<close>: the text is cut at
  every line feed, and a carriage return just before the line feed belongs to the
  separator.
\<close>

definition is_space :: "char \<Rightarrow> bool" where
  "is_space c = (c \<in> set [CHR 0x09, CHR 0x0A, CHR 0x0B, CHR 0x0C, CHR 0x0D, CHR 0x20])"

definition trim :: "string \<Rightarrow> string" where
  "trim s = rev (dropWhile is_space (rev (dropWhile is_space s)))"

fun split_char :: "char \<Rightarrow> string \<Rightarrow> string list" where
  "split_char c [] = [[]]"
| "split_char c (x # xs) =
     (if x = c then [] # split_char c xs
      else (case split_char c xs of [] \<Rightarrow> [[x]] | w # ws \<Rightarrow> (x # w) # ws))"

definition strip_cr :: "string \<Rightarrow> string" where
  "strip_cr l = (if l \<noteq> [] \<and> last l = CHR 0x0D then butlast l else l)"

definition split_lines :: "string \<Rightarrow> string list" where
  "split_lines s = (let ps = split_char (CHR 0x0A) s in map strip_cr (butlast ps) @ [last ps])"

text \<open>
  \<open>header_index\<close> is the object \<open>idx\<close> built by \<open>Object.fromEntries\<close>: a header name
  maps to its position, the last one when a name repeats, and a name that is not a header
  reads as \<open>undefined\<close> (\<open>None\<close>).  \<open>take_col\<close> is the local function \<open>take\<close>.  \<open>cell r k\<close> is \<open>r[k]\<close>: \<open>undefined\<close> when \<open>k\<close>
  is \<open>undefined\<close> or beyond the row.  \<open>Number\<close>, which converts a cell's text, is the
  parameter \<open>num\<close>.
\<close>

definition header_index :: "string list \<Rightarrow> string \<Rightarrow> nat option" where
  "header_index headers = map_of (rev (zip headers [0..<length headers]))"

definition cell :: "jsnum list \<Rightarrow> nat option \<Rightarrow> jsval" where
  "cell r k = (case k of None \<Rightarrow> Undefined | Some j \<Rightarrow> if j < length r then Num (r ! j) else Undefined)"

definition csv_headers :: "string \<Rightarrow> string list" where
  "csv_headers text = map trim (split_char CHR '','' (hd (split_lines (trim text))))"

definition csv_rows :: "(string \<Rightarrow> jsnum) \<Rightarrow> string \<Rightarrow> jsnum list list" where
  "csv_rows num text = map (\<lambda>line. map num (split_char CHR '','' line)) (tl (split_lines (trim text)))"

definition loadCSV :: "(string \<Rightarrow> jsnum) \<Rightarrow> string \<Rightarrow> parsed" where
  "loadCSV num text =
     (let idx = header_index (csv_headers text);
          rows = csv_rows num text;
          take_col = (\<lambda>name. map (\<lambda>r. cell r (idx name)) rows);
          t = take_col ''t'';
          pos = map (\<lambda>i. (cell (rows ! i) (idx ''x''), cell (rows ! i) (idx ''y''),
                           cell (rows ! i) (idx ''z''))) [0..<length t];
          vel = map (\<lambda>i. (cell (rows ! i) (idx ''vx''), cell (rows ! i) (idx ''vy''),
                           cell (rows ! i) (idx ''vz''))) [0..<length t];
          quat = map (\<lambda>i. (cell (rows ! i) (idx ''qw''), cell (rows ! i) (idx ''qx''),
                            cell (rows ! i) (idx ''qy''), cell (rows ! i) (idx ''qz'')))
                   [0..<length t];
          omega = map (\<lambda>i. (cell (rows ! i) (idx ''omx''), cell (rows ! i) (idx ''omy''),
                             cell (rows ! i) (idx ''omz''))) [0..<length t];
          fuel = (if idx ''fuel'' \<noteq> None then take_col ''fuel''
                  else replicate (length t) (Num NaN))
      in \<lparr>traj_t = t, traj_pos = pos, traj_vel = vel, traj_quat = quat,
          traj_omega = omega, traj_fuel = fuel\<rparr>)"

subsection \<open>Columnar file\<close>

text \<open>
  Decoding the bytes (parquet-wasm and Apache Arrow, loaded from a CDN) is the parameter
  \<open>decode\<close>: it throws, or it returns the table, here the fields in schema order, each
  with the array \<open>toArray\<close> gives.  \<open>getCol\<close> finds the first field of the name and
  returns \<open>[]\<close> when there is none.  \<open>elem_at xs i\<close> is \<open>xs[i]\<close>, and
  \<open>nullish_NaN v\<close> is \<open>v ?? NaN\<close>.
\<close>

type_synonym arrow_table = "(string \<times> jsval list) list"

definition getCol :: "arrow_table \<Rightarrow> string \<Rightarrow> jsval list" where
  "getCol table name = (case map_of table name of None \<Rightarrow> [] | Some col \<Rightarrow> col)"

definition elem_at :: "jsval list \<Rightarrow> nat \<Rightarrow> jsval" where
  "elem_at xs i = (if i < length xs then xs ! i else Undefined)"

fun nullish_NaN :: "jsval \<Rightarrow> jsval" where
  "nullish_NaN Undefined = Num NaN"
| "nullish_NaN v = v"

definition table_record :: "arrow_table \<Rightarrow> parsed" where
  "table_record table =
     (let t = getCol table ''t'';
          x = getCol table ''x''; y = getCol table ''y''; z = getCol table ''z'';
          vx = getCol table ''vx''; vy = getCol table ''vy''; vz = getCol table ''vz'';
          qx = getCol table ''qx''; qy = getCol table ''qy''; qz = getCol table ''qz'';
          qw = getCol table ''qw'';
          omx = getCol table ''omx''; omy = getCol table ''omy''; omz = getCol table ''omz'';
          fuelCol = getCol table ''fuel'';
          N = length t
      in \<lparr>traj_t = t,
          traj_pos = map (\<lambda>i. (elem_at x i, elem_at y i, elem_at z i)) [0..<N],
          traj_vel = map (\<lambda>i. (elem_at vx i, elem_at vy i, elem_at vz i)) [0..<N],
          traj_quat = map (\<lambda>i. (elem_at qw i, elem_at qx i, elem_at qy i, elem_at qz i)) [0..<N],
          traj_omega = map (\<lambda>i. (elem_at omx i, elem_at omy i, elem_at omz i)) [0..<N],
          traj_fuel = map (\<lambda>i. nullish_NaN (elem_at fuelCol i)) [0..<N]\<rparr>)"

definition loadParquet :: "(string \<Rightarrow> error + arrow_table) \<Rightarrow> string \<Rightarrow> error + parsed" where
  "loadParquet decode blob =
     (case decode blob of Inl e \<Rightarrow> Inl e | Inr table \<Rightarrow> Inr (table_record table))"

text \<open>
  The readout formats a value with \<open>fmt\<close>: a finite number is shown, anything else
  (NaN, an infinity, \<open>undefined\<close>) is shown as a dash, the viewer's ``not available''.
\<close>

datatype shown = Shown real | Dash

fun fmt :: "jsval \<Rightarrow> shown" where
  "fmt (Num (Fin x)) = Shown x"
| "fmt v = Dash"

text \<open>
  To run examples, \<open>num_digits\<close> stands in for \<open>Number\<close>: it agrees with it on the
  strings of decimal digits (the empty string converts to 0) and returns NaN on every
  other string.
\<close>

definition digit_of :: "char \<Rightarrow> nat" where
  "digit_of c = of_char c - 48"

definition is_digit :: "char \<Rightarrow> bool" where
  "is_digit c = (48 \<le> (of_char c :: nat) \<and> (of_char c :: nat) \<le> 57)"

definition num_digits :: "string \<Rightarrow> jsnum" where
  "num_digits s =
     (if list_all is_digit s
      then Fin (real (foldl (\<lambda>n c. 10 * n + digit_of c) 0 s)) else NaN)"

definition is_num :: "jsval \<Rightarrow> bool" where
  "is_num v = (v \<noteq> Undefined)"

text \<open>A file of two samples with the eleven required columns and no optional one.\<close>

definition csv_required_only :: string where
  "csv_required_only =
     ''t,x,y,z,vx,vy,vz,qw,qx,qy,qz'' @ [CHR 0x0A] @
     ''0,1,2,3,4,5,6,1,0,0,0'' @ [CHR 0x0D, CHR 0x0A] @
     ''1,2,3,4,5,6,7,1,0,0,0'' @ [CHR 0x0A]"

text \<open>A file of two samples from which the column \<open>x\<close> is missing.\<close>

definition csv_no_x :: string where
  "csv_no_x =
     ''t,y,z,vx,vy,vz,qw,qx,qy,qz'' @ [CHR 0x0A] @
     ''0,2,3,4,5,6,1,0,0,0'' @ [CHR 0x0A] @
     ''1,3,4,5,6,7,1,0,0,0''"

text \<open>A file of two samples from which the four quaternion columns are missing.\<close>

definition csv_no_quat :: string where
  "csv_no_quat =
     ''t,x,y,z,vx,vy,vz'' @ [CHR 0x0A] @
     ''0,1,2,3,4,5,6'' @ [CHR 0x0A] @
     ''1,2,3,4,5,6,7''"

section \<open>Scene renderer\<close>

text \<open>
  three.js (release 0.160.0, loaded from a CDN) is a library, not code of the viewer.
  Of the scene only what the viewer's functions read and write is kept: the pose of the
  rocket group (the components are stored as given, in the library's order \<open>x, y, z, w\<close>
  for the quaternion), the camera, the renderer's current target (\<open>None\<close> is the
  canvas) and the picture on the canvas.  A picture is identified with what determines
  it: the pose of the rocket and the camera it was rendered with.
\<close>

type_synonym nvec = "jsnum \<times> jsnum \<times> jsnum"

record camera =
  cam_position :: nvec
  cam_target :: vec3
  cam_aspect :: jsnum

type_synonym image = "vec3 \<times> quat \<times> camera"

record three_ctx =
  rocket_position :: vec3
  rocket_quaternion :: quat
  scene_camera :: camera
  render_target :: "(nat \<times> nat) option"
  canvas :: "image option"

definition render_scene :: "three_ctx \<Rightarrow> camera \<Rightarrow> image" where
  "render_scene ctx cam = (rocket_position ctx, rocket_quaternion ctx, cam)"

text \<open>
  \<open>renderer.render(scene, cam)\<close> draws into the current target: onto the canvas when
  the target is \<open>null\<close>, into the off-screen buffer otherwise.
\<close>

definition renderer_render :: "three_ctx \<Rightarrow> camera \<Rightarrow> three_ctx" where
  "renderer_render ctx cam =
     (case render_target ctx of
        None \<Rightarrow> ctx\<lparr>canvas := Some (render_scene ctx cam)\<rparr>
      | Some rt \<Rightarrow> ctx)"

definition setupThree :: "jsnum \<Rightarrow> three_ctx" where
  "setupThree aspect =
     (let cam = \<lparr>cam_position = (Fin 6, Fin 6, Fin 6),
                 cam_target = (Num (Fin 0), Num (Fin 0), Num (Fin 0)),
                 cam_aspect = aspect\<rparr>;
          ctx = \<lparr>rocket_position = (Num (Fin 0), Num (Fin 0), Num (Fin 0)),
                 rocket_quaternion = (Num (Fin 0), Num (Fin 0), Num (Fin 0), Num (Fin 1)),
                 scene_camera = cam, render_target = None, canvas = None\<rparr>
      in renderer_render ctx cam)"

text \<open>
  The library's \<open>Vector3.set(x, y, z)\<close> stores \<open>x\<close> and \<open>y\<close> as given and keeps
  the previous \<open>z\<close> when the third argument is \<open>undefined\<close>.
\<close>

definition vector3_set :: "vec3 \<Rightarrow> jsval \<Rightarrow> jsval \<Rightarrow> jsval \<Rightarrow> vec3" where
  "vector3_set v x y z = (case v of (vx, vy, vz) \<Rightarrow> (x, y, if z = Undefined then vz else z))"

text \<open>
  \<open>updateCameraFollow\<close>: the camera moves a quarter of the way towards the target plus
  the offset \<open>(6, 6, 4)\<close> and looks at the target.  The library's
  \<open>lookAt(x, y, z)\<close> begins by reading \<open>x.isVector3\<close>, which throws a \<open>TypeError\<close>
  when \<open>x\<close> is \<open>undefined\<close>; the camera has been moved by then.
\<close>

definition lerp1 :: "rounding \<Rightarrow> jsnum \<Rightarrow> jsnum \<Rightarrow> jsnum \<Rightarrow> jsnum" where
  "lerp1 rd a v alpha = js_add rd a (js_mul rd (js_sub rd v a) alpha)"

definition updateCameraFollow :: "rounding \<Rightarrow> three_ctx \<Rightarrow> vec3 \<Rightarrow> three_ctx \<times> error option" where
  "updateCameraFollow rd ctx targetPos =
     (case targetPos of (tx, ty, tz) \<Rightarrow>
      case cam_position (scene_camera ctx) of (cx, cy, cz) \<Rightarrow>
        let dx = js_add rd (toNumber tx) (Fin 6);
            dy = js_add rd (toNumber ty) (Fin 6);
            dz = js_add rd (toNumber tz) (Fin 4);
            alpha = rd (25 / 100);
            ctx1 = ctx\<lparr>scene_camera := (scene_camera ctx)
                     \<lparr>cam_position := (lerp1 rd cx dx alpha, lerp1 rd cy dy alpha,
                                        lerp1 rd cz dz alpha)\<rparr>\<rparr>
        in if tx = Undefined then (ctx1, Some TypeError)
           else (ctx1\<lparr>scene_camera := (scene_camera ctx1)\<lparr>cam_target := targetPos\<rparr>\<rparr>, None))"

text \<open>
  \<open>updateThreePose\<close> does nothing without a context.  Otherwise it sets the
  quaternion, then the position, from the sample; reading a component of a sample that
  is \<open>undefined\<close> throws.  Then the camera follows, which throws when the first
  component of the position is \<open>undefined\<close>, and the scene is rendered with the live
  camera.
\<close>

definition updateThreePose ::
  "rounding \<Rightarrow> three_ctx option \<Rightarrow> vec3 option \<Rightarrow> quat option \<Rightarrow> three_ctx option \<times> error option" where
  "updateThreePose rd c pos q =
     (case c of
        None \<Rightarrow> (None, None)
      | Some ctx \<Rightarrow>
          (case q of
             None \<Rightarrow> (Some ctx, Some TypeError)
           | Some (qw, qx, qy, qz) \<Rightarrow>
               let ctx1 = ctx\<lparr>rocket_quaternion := (qx, qy, qz, qw)\<rparr> in
               (case pos of
                  None \<Rightarrow> (Some ctx1, Some TypeError)
                | Some (p0, p1, p2) \<Rightarrow>
                    let ctx2 = ctx1\<lparr>rocket_position := vector3_set (rocket_position ctx1) p0 p1 p2\<rparr>
                    in (case updateCameraFollow rd ctx2 (rocket_position ctx2) of
                          (ctx3, Some e) \<Rightarrow> (Some ctx3, Some e)
                        | (ctx3, None) \<Rightarrow> (Some (renderer_render ctx3 (scene_camera ctx3)), None)))))"

text \<open>
  \<open>addSnapshot\<close>: the pose to capture is set on a new object, whose position starts at
  the origin; the rocket is put into that pose, the scene is rendered with a copy of the
  camera into a buffer of 100 by 80 pixels, and the pose is put back.
  The thumbnail and its label are appended to the container at the end; the label is
  \<open>t.toFixed(2)\<close>, which throws when \<open>t\<close> is \<open>undefined\<close>.  A snapshot is the
  picture in the buffer with the time of the label.
\<close>

type_synonym snapshot = "image \<times> jsnum"

definition addSnapshot ::
  "rounding \<Rightarrow> snapshot list \<Rightarrow> three_ctx \<Rightarrow> vec3 \<Rightarrow> quat \<Rightarrow> jsval
     \<Rightarrow> snapshot list \<times> three_ctx \<times> error option" where
  "addSnapshot rd container ctx pos q t =
     (case q of (qw, qx, qy, qz) \<Rightarrow> case pos of (p0, p1, p2) \<Rightarrow>
        let w = 100; h = 80;
            rt = (w, h);
            tempCam = (scene_camera ctx)\<lparr>cam_aspect := js_div rd (Fin (real w)) (Fin (real h))\<rparr>;
            dummy_quaternion = (qx, qy, qz, qw);
            dummy_position = vector3_set (Num (Fin 0), Num (Fin 0), Num (Fin 0)) p0 p1 p2;
            oldPos = rocket_position ctx;
            oldQuat = rocket_quaternion ctx;
            ctx1 = ctx\<lparr>rocket_position := dummy_position\<rparr>;
            ctx2 = ctx1\<lparr>rocket_quaternion := dummy_quaternion\<rparr>;
            ctx3 = ctx2\<lparr>render_target := Some rt\<rparr>;
            pixels = render_scene ctx3 tempCam;
            ctx4 = renderer_render ctx3 tempCam;
            ctx5 = ctx4\<lparr>render_target := None\<rparr>;
            ctx6 = ctx5\<lparr>rocket_position := oldPos\<rparr>;
            ctx7 = ctx6\<lparr>rocket_quaternion := oldQuat\<rparr>
        in (case t of
              Undefined \<Rightarrow> (container, ctx7, Some TypeError)
            | Num tn \<Rightarrow> (container @ [(pixels, tn)], ctx7, None)))"

section \<open>Attitude instrument\<close>

text \<open>
  The library's \<open>Quaternion.normalize\<close> and \<open>Vector3.applyQuaternion\<close>, on the
  quaternion in the order \<open>(x, y, z, w)\<close>.  The constructors of \<open>Quaternion\<close> and
  \<open>Vector3\<close> have default parameters: \<open>default_to d v\<close> is the value a parameter
  with the default \<open>d\<close> takes from the argument \<open>v\<close>.
\<close>

definition default_to :: "jsnum \<Rightarrow> jsval \<Rightarrow> jsnum" where
  "default_to d v = (case v of Undefined \<Rightarrow> d | Num n \<Rightarrow> n)"

definition normalize :: "rounding \<Rightarrow> jsnum \<times> jsnum \<times> jsnum \<times> jsnum \<Rightarrow> jsnum \<times> jsnum \<times> jsnum \<times> jsnum" where
  "normalize rd q =
     (case q of (x, y, z, w) \<Rightarrow>
        let l = Math_sqrt rd
                  (js_add rd (js_add rd (js_add rd (js_mul rd x x) (js_mul rd y y)) (js_mul rd z z))
                     (js_mul rd w w))
        in if js_eq l (Fin 0) then (Fin 0, Fin 0, Fin 0, Fin 1)
           else let l' = js_div rd (Fin 1) l
                in (js_mul rd x l', js_mul rd y l', js_mul rd z l', js_mul rd w l'))"

definition applyQuaternion :: "rounding \<Rightarrow> nvec \<Rightarrow> jsnum \<times> jsnum \<times> jsnum \<times> jsnum \<Rightarrow> nvec" where
  "applyQuaternion rd v q =
     (case v of (vx, vy, vz) \<Rightarrow> case q of (qx, qy, qz, qw) \<Rightarrow>
        let tx = js_mul rd (Fin 2) (js_sub rd (js_mul rd qy vz) (js_mul rd qz vy));
            ty = js_mul rd (Fin 2) (js_sub rd (js_mul rd qz vx) (js_mul rd qx vz));
            tz = js_mul rd (Fin 2) (js_sub rd (js_mul rd qx vy) (js_mul rd qy vx))
        in (js_sub rd (js_add rd (js_add rd vx (js_mul rd qw tx)) (js_mul rd qy tz)) (js_mul rd qz ty),
            js_sub rd (js_add rd (js_add rd vy (js_mul rd qw ty)) (js_mul rd qz tx)) (js_mul rd qx tz),
            js_sub rd (js_add rd (js_add rd vz (js_mul rd qw tz)) (js_mul rd qx ty)) (js_mul rd qy tx)))"

text \<open>
  The heading part of \<open>updateNavball\<close>.  \<open>forward_world\<close> is its constant
  \<open>forwardWorld\<close>: the body's forward axis \<open>(0, 0, 1)\<close>, the long axis of the rocket,
  turned by the normalised orientation \<open>new THREE.Quaternion(x, y, z, w).normalize()\<close>,
  whose constructor defaults are \<open>(0, 0, 0, 1)\<close>.  The heading text is \<open>HDG\<close> with the rounded
  angle, or \<open>HDG ---\<close>.  The markers and the speed text of the instrument are not
  modelled.
\<close>

datatype heading = HDG jsnum | HDG_unavailable

definition forward_world :: "rounding \<Rightarrow> quat \<Rightarrow> nvec" where
  "forward_world rd quatScalarFirst =
     (case quatScalarFirst of (w, x, y, z) \<Rightarrow>
        let vehicleQ = normalize rd (default_to (Fin 0) x, default_to (Fin 0) y,
                                     default_to (Fin 0) z, default_to (Fin 1) w)
        in applyQuaternion rd (Fin 0, Fin 0, Fin 1) vehicleQ)"

definition navball_heading :: "rounding \<Rightarrow> quat \<Rightarrow> heading" where
  "navball_heading rd quatScalarFirst =
     (case forward_world rd quatScalarFirst of (fx, fy, fz) \<Rightarrow>
        let proj = Math_hypot rd fx fz
        in if js_gt proj (rd (1 / 100))
           then let hdg = js_mod (js_add rd
                                    (js_div rd (js_mul rd (Math_atan2 rd fx fz) (Fin 180)) Math_PI)
                                    (Fin 360))
                                 (Fin 360)
                in HDG (Math_round hdg)
           else HDG_unavailable)"

text \<open>
  Two orientations: the rocket upright, as on the pad (the identity quaternion: the long
  axis of the rocket along the world's z axis, which is up in the viewer's scene), and the
  rocket tilted by about a tenth of a degree about the y axis.
\<close>

definition q_upright :: quat where
  "q_upright = (Num (Fin 1), Num (Fin 0), Num (Fin 0), Num (Fin 0))"

definition q_tilt :: quat where
  "q_tilt = (Num (Fin 1), Num (Fin 0), Num (Fin (- (1 / 1000))), Num (Fin 0))"

section \<open>Playback controller\<close>

text \<open>
  The module's variables and the page elements it reads and writes.  \<open>slider_value\<close>
  and \<open>slider_max\<close> are the numbers that \<open>timeSlider.value\<close> and \<open>timeSlider.max\<close>
  hold.  \<open>speed_value\<close> is \<open>Number(speedEl.value || 1)\<close>.  \<open>euler\<close> is \<open>data.euler\<close>.  A plot keeps the
  vertical scale of its last drawing and the index of its cursor.  \<open>alerts\<close> are the
  messages shown to the user.  \<open>canvas_aspect\<close> is the width of the 3D canvas over its
  height, a property of the page.
\<close>

record plot =
  plot_scale :: "jsnum \<times> jsnum"
  plot_cursor :: "jsnum option"

record app_state =
  data :: "parsed option"
  euler :: "(jsnum \<times> jsnum \<times> jsnum) list option"
  playing :: bool
  slider_max :: jsnum
  slider_value :: jsnum
  speed_value :: jsnum
  tVal :: "jsnum option"
  posPlot :: "plot option"
  velPlot :: "plot option"
  eulerPlot :: "plot option"
  three :: "three_ctx option"
  navball_ready :: bool
  heading_text :: "heading option"
  readout :: "shown list"
  cursorIndices :: "jsnum list"
  snapshots :: "snapshot list"
  alerts :: "string list"
  canvas_aspect :: jsnum

text \<open>
  Modelled from the spec: the page's markup, which declares \<open>timeSlider\<close>, is not among
  the sources.  The controller uses the element as a range input: it writes its \<open>max\<close>
  and its \<open>value\<close> and listens to its \<open>input\<close> event.  The spec's playback state
  holds the ``current sample index (integer, 0 <= i < N)'', so the slider has the minimum
  0 and the step 1, which are also the defaults of a range input.  \<open>range_value mx v\<close> is
  the number the input holds after the number \<open>v\<close> has been written to its \<open>value\<close>,
  with the maximum \<open>mx\<close>; this is HTML's value sanitisation for a range input.  A
  number that is not finite is not a valid value and is replaced by the default value,
  the middle of the range (the minimum when the maximum lies below it).  A value below
  the minimum becomes the minimum; a value above the maximum becomes the maximum, unless
  the maximum lies below the minimum.  A value between two steps is rounded to the nearest
  step within the range, upwards when it is half-way.  A maximum that is not a number
  counts as the default maximum 100.
\<close>

definition range_value :: "jsnum \<Rightarrow> jsnum \<Rightarrow> jsnum" where
  "range_value mx v =
     (let m = (case mx of Fin a \<Rightarrow> a | _ \<Rightarrow> 100);
          r = (case v of Fin b \<Rightarrow> b | _ \<Rightarrow> if m < 0 then 0 else m / 2);
          c = (if r < 0 then 0 else if 0 \<le> m \<and> m < r then m else r);
          k = \<lfloor>c + 1 / 2\<rfloor>
      in Fin (of_int (if 0 \<le> m \<and> m < of_int k then \<lfloor>m\<rfloor> else k)))"

text \<open>
  \<open>array_get xs i\<close> is \<open>xs[i]\<close> for a number \<open>i\<close>: an element only when \<open>i\<close> is an
  integer from 0 up to the length, \<open>undefined\<close> (\<open>None\<close>) otherwise.
\<close>

definition array_get :: "'a list \<Rightarrow> jsnum \<Rightarrow> 'a option" where
  "array_get xs i =
     (case i of
        Fin r \<Rightarrow> if 0 \<le> r \<and> r = of_int \<lfloor>r\<rfloor> \<and> nat \<lfloor>r\<rfloor> < length xs
                 then Some (xs ! nat \<lfloor>r\<rfloor>) else None
      | _ \<Rightarrow> None)"

definition last_index :: "parsed \<Rightarrow> jsnum" where
  "last_index d = Fin (real (length (traj_t d)) - 1)"

definition degrees :: "rounding \<Rightarrow> jsnum \<Rightarrow> jsnum" where
  "degrees rd v = js_div rd (js_mul rd v (Fin 180)) Math_PI"

definition euler_degrees :: "rounding \<Rightarrow> jsnum \<times> jsnum \<times> jsnum \<Rightarrow> vec3" where
  "euler_degrees rd rpy =
     (case rpy of (r, p, y) \<Rightarrow> (Num (degrees rd r), Num (degrees rd p), Num (degrees rd y)))"

definition drawLines :: "rounding \<Rightarrow> jsval list \<Rightarrow> vec3 list \<Rightarrow> error + plot" where
  "drawLines rd t series3 =
     (case drawLines_scale rd (length t) series3 of
        Inl e \<Rightarrow> Inl e
      | Inr sc \<Rightarrow> Inr \<lparr>plot_scale = sc, plot_cursor = None\<rparr>)"

definition drawCursor :: "plot option \<Rightarrow> jsnum \<Rightarrow> plot option" where
  "drawCursor container i =
     (case container of None \<Rightarrow> None | Some pl \<Rightarrow> Some (pl\<lparr>plot_cursor := Some i\<rparr>))"

definition updateNavball :: "rounding \<Rightarrow> app_state \<Rightarrow> vec3 option \<Rightarrow> quat option \<Rightarrow> app_state" where
  "updateNavball rd st velVec3 quatScalarFirst =
     (case (navball_ready st, velVec3, quatScalarFirst) of
        (True, Some v, Some q) \<Rightarrow> st\<lparr>heading_text := Some (navball_heading rd q)\<rparr>
      | _ \<Rightarrow> st)"

text \<open>
  \<open>updateReadout\<close> with data present: the fourteen cells.  An \<open>omega\<close> sample that is
  not there is replaced by three NaN, a \<open>fuel\<close> sample by NaN.
\<close>

definition updateReadout ::
  "rounding \<Rightarrow> parsed \<Rightarrow> (jsnum \<times> jsnum \<times> jsnum) list \<Rightarrow> jsnum \<Rightarrow> error + shown list" where
  "updateReadout rd d eul i =
     (case (array_get (traj_pos d) i, array_get (traj_vel d) i, array_get eul i) of
        (Some (px, py, pz), Some (vx, vy, vz), Some e) \<Rightarrow>
          (case euler_degrees rd e of (roll, pitch, yaw) \<Rightarrow>
           case (case array_get (traj_omega d) i of
                   None \<Rightarrow> (Num NaN, Num NaN, Num NaN) | Some om \<Rightarrow> om) of (ox, oy, oz) \<Rightarrow>
             Inr [fmt (case array_get (traj_t d) i of None \<Rightarrow> Undefined | Some t \<Rightarrow> t),
                  fmt px, fmt py, fmt pz, fmt vx, fmt vy, fmt vz,
                  fmt roll, fmt pitch, fmt yaw, fmt ox, fmt oy, fmt oz,
                  fmt (nullish_NaN (case array_get (traj_fuel d) i of
                                      None \<Rightarrow> Undefined | Some f \<Rightarrow> f))])
      | _ \<Rightarrow> Inl TypeError)"

text \<open>
  \<open>onTimeChange\<close> returns the state it leaves and the exception it throws, if any.
  It throws a \<open>TypeError\<close> when there is no data, when the time at the index is
  \<open>undefined\<close> (\<open>t.toFixed\<close>), and when a sample it passes on is \<open>undefined\<close>.
\<close>

definition onTimeChange :: "rounding \<Rightarrow> app_state \<Rightarrow> app_state \<times> error option" where
  "onTimeChange rd st =
     (case data st of
        None \<Rightarrow> (st, Some TypeError)
      | Some d \<Rightarrow>
          let i = slider_value st in
          (case array_get (traj_t d) i of
             Some (Num t) \<Rightarrow>
               let st1 = st\<lparr>tVal := Some t\<rparr>;
                   st2 = st1\<lparr>posPlot := drawCursor (posPlot st1) i\<rparr>;
                   st3 = st2\<lparr>velPlot := drawCursor (velPlot st2) i\<rparr>;
                   st4 = st3\<lparr>eulerPlot := drawCursor (eulerPlot st3) i\<rparr>
               in (case updateThreePose rd (three st4) (array_get (traj_pos d) i)
                          (array_get (traj_quat d) i) of
                     (c, Some e) \<Rightarrow> (st4\<lparr>three := c\<rparr>, Some e)
                   | (c, None) \<Rightarrow>
                       let st5 = st4\<lparr>three := c\<rparr>;
                           st6 = updateNavball rd st5 (array_get (traj_vel d) i)
                                   (array_get (traj_quat d) i)
                       in (case updateReadout rd d (case euler st6 of None \<Rightarrow> [] | Some e \<Rightarrow> e) i of
                             Inl e \<Rightarrow> (st6, Some e)
                           | Inr cells \<Rightarrow> (st6\<lparr>readout := cells\<rparr>, None)))
           | _ \<Rightarrow> (st, Some TypeError)))"

text \<open>
  \<open>setData\<close> installs a parsed record.  Its first statement assigns \<open>data\<close>; the
  statement that shows the first time, \<open>data.t[0].toFixed(2)\<close>, throws when the
  record has no first time.
\<close>

definition setData :: "rounding \<Rightarrow> parsed \<Rightarrow> app_state \<Rightarrow> app_state \<times> error option" where
  "setData rd p st =
     (let st1 = st\<lparr>data := Some p\<rparr>;
          eul = computeEulerAll rd (traj_quat p);
          st2 = st1\<lparr>euler := Some eul\<rparr>;
          st3 = st2\<lparr>slider_max := last_index p\<rparr>;
          st4 = st3\<lparr>slider_value := range_value (slider_max st3) (Fin 0)\<rparr>
      in (case array_get (traj_t p) (Fin 0) of
            Some (Num t0) \<Rightarrow>
              let st5 = st4\<lparr>tVal := Some t0\<rparr> in
              (case drawLines rd (traj_t p) (traj_pos p) of
                 Inl e \<Rightarrow> (st5, Some e)
               | Inr pl1 \<Rightarrow>
                   let st6 = st5\<lparr>posPlot := Some pl1\<rparr> in
                   (case drawLines rd (traj_t p) (traj_vel p) of
                      Inl e \<Rightarrow> (st6, Some e)
                    | Inr pl2 \<Rightarrow>
                        let st7 = st6\<lparr>velPlot := Some pl2\<rparr> in
                        (case drawLines rd (traj_t p) (map (euler_degrees rd) eul) of
                           Inl e \<Rightarrow> (st7, Some e)
                         | Inr pl3 \<Rightarrow>
                             let st8 = st7\<lparr>eulerPlot := Some pl3\<rparr>;
                                 ctx = (case three st8 of
                                          None \<Rightarrow> setupThree (canvas_aspect st8)
                                        | Some c \<Rightarrow> c);
                                 st9 = st8\<lparr>three := Some ctx\<rparr>
                             in (case updateThreePose rd (Some ctx) (array_get (traj_pos p) (Fin 0))
                                        (array_get (traj_quat p) (Fin 0)) of
                                   (c, Some e) \<Rightarrow> (st9\<lparr>three := c\<rparr>, Some e)
                                 | (c, None) \<Rightarrow>
                                     let st10 = st9\<lparr>three := c\<rparr>;
                                         st11 = st10\<lparr>navball_ready := True\<rparr>;
                                         st12 = updateNavball rd st11
                                                  (array_get (traj_vel p) (Fin 0))
                                                  (array_get (traj_quat p) (Fin 0));
                                         st13 = st12\<lparr>cursorIndices := []\<rparr>
                                     in (st13\<lparr>snapshots := []\<rparr>, None)))))
          | _ \<Rightarrow> (st4, Some TypeError)))"

text \<open>
  \<open>tick\<close> is the animation-frame callback.  What it writes to the slider is held as
  the range input holds it.  When \<open>onTimeChange\<close> throws, the exception leaves
  \<open>tick\<close>: the slider keeps the new value, \<open>playing\<close> is not reset.
\<close>

definition tick :: "rounding \<Rightarrow> app_state \<Rightarrow> app_state \<times> error option" where
  "tick rd st =
     (case data st of
        None \<Rightarrow> (st, None)
      | Some d \<Rightarrow>
          if \<not> playing st then (st, None)
          else let dt = speed_value st;
                   next = Math_min (last_index d) (js_add rd (slider_value st) dt);
                   st1 = st\<lparr>slider_value := range_value (slider_max st) next\<rparr>
               in (case onTimeChange rd st1 of
                     (st2, Some e) \<Rightarrow> (st2, Some e)
                   | (st2, None) \<Rightarrow>
                       if js_ge (slider_value st2) (last_index d)
                       then (st2\<lparr>playing := False\<rparr>, None)
                       else (st2, None)))"

definition playPause_click :: "app_state \<Rightarrow> app_state" where
  "playPause_click st = st\<lparr>playing := \<not> playing st\<rparr>"

text \<open>
  The slider's \<open>input\<close> event: the user has moved the slider towards \<open>j\<close>, the
  input holds the position of its range that stands for it, then the handler runs.
\<close>

definition timeSlider_input :: "rounding \<Rightarrow> app_state \<Rightarrow> jsnum \<Rightarrow> app_state \<times> error option" where
  "timeSlider_input rd st j =
     (let st1 = st\<lparr>slider_value := range_value (slider_max st) j\<rparr>;
          st2 = st1\<lparr>playing := False\<rparr>
      in onTimeChange rd st2)"

text \<open>
  \<open>handlePlotClick\<close>, from its constants \<open>x = e.clientX - rect.left\<close> and
  \<open>w = rect.width\<close>.
\<close>

definition handlePlotClick :: "rounding \<Rightarrow> app_state \<Rightarrow> jsnum \<Rightarrow> jsnum \<Rightarrow> app_state \<times> error option" where
  "handlePlotClick rd st x w =
     (case data st of
        None \<Rightarrow> (st, None)
      | Some d \<Rightarrow>
          let idx = Math_round (js_mul rd (js_div rd x w) (last_index d));
              st1 = st\<lparr>slider_value := range_value (slider_max st)
                                        (Math_max (Fin 0) (Math_min (last_index d) idx))\<rparr>
          in onTimeChange rd st1)"

text \<open>
  \<open>handleSnapshots\<close>: one snapshot for an index; the index is recorded before the
  sample is read.
\<close>

definition handleSnapshots :: "rounding \<Rightarrow> app_state \<Rightarrow> app_state \<times> error option" where
  "handleSnapshots rd st =
     (let i = slider_value st in
      if List.member (cursorIndices st) i then (st, None)
      else let st1 = st\<lparr>cursorIndices := cursorIndices st @ [i]\<rparr> in
           (case (data st1, three st1) of
              (Some d, Some ctx) \<Rightarrow>
                (case (array_get (traj_pos d) i, array_get (traj_quat d) i) of
                   (Some pos, Some q) \<Rightarrow>
                     (case addSnapshot rd (snapshots st1) ctx pos q
                             (case array_get (traj_t d) i of None \<Rightarrow> Undefined | Some t \<Rightarrow> t) of
                        (container, ctx', err) \<Rightarrow>
                          (st1\<lparr>snapshots := container, three := Some ctx'\<rparr>, err))
                 | _ \<Rightarrow> (st1, Some TypeError))
            | _ \<Rightarrow> (st1, Some TypeError)))"

subsection \<open>File handling\<close>

text \<open>
  The \<open>change\<close> handler of the file input.  A file is its name and its content.
  \<open>parse_file\<close> is the parser call: the parser is chosen by the extension,
  \<open>file.name.toLowerCase().split('.').pop()\<close>.  Whatever the parser or \<open>setData\<close>
  throws is caught and shown as \<open>'Failed to load file: ' + err.message\<close>.
\<close>

definition to_lower :: "char \<Rightarrow> char" where
  "to_lower c =
     (if 65 \<le> (of_char c :: nat) \<and> (of_char c :: nat) \<le> 90 then char_of (of_char c + 32 :: nat) else c)"

definition file_ext :: "string \<Rightarrow> string" where
  "file_ext name = last (split_char CHR ''.'' (map to_lower name))"

text \<open>
  The message of a \<open>TypeError\<close> is the engine's text; it is represented by the name of
  the error.
\<close>

fun message :: "error \<Rightarrow> string" where
  "message TypeError = ''TypeError''"
| "message (LoadError m) = m"

definition parse_file ::
  "(string \<Rightarrow> jsnum) \<Rightarrow> (string \<Rightarrow> error + arrow_table) \<Rightarrow> string \<times> string \<Rightarrow> error + parsed" where
  "parse_file num decode file =
     (case file of (name, content) \<Rightarrow>
        if file_ext name = ''csv'' then Inr (loadCSV num content) else loadParquet decode content)"

definition fileInput_change ::
  "rounding \<Rightarrow> (string \<Rightarrow> jsnum) \<Rightarrow> (string \<Rightarrow> error + arrow_table) \<Rightarrow> app_state
     \<Rightarrow> (string \<times> string) option \<Rightarrow> app_state" where
  "fileInput_change rd num decode st file =
     (case file of
        None \<Rightarrow> st
      | Some f \<Rightarrow>
          (case parse_file num decode f of
             Inl err \<Rightarrow> st\<lparr>alerts := alerts st @ [''Failed to load file: '' @ message err]\<rparr>
           | Inr p \<Rightarrow>
               (case setData rd p st of
                  (st', None) \<Rightarrow> st'
                | (st', Some err) \<Rightarrow>
                    st'\<lparr>alerts := alerts st' @ [''Failed to load file: '' @ message err]\<rparr>)))"

text \<open>The page before any file is loaded.\<close>

definition initial_state :: "jsnum \<Rightarrow> app_state" where
  "initial_state aspect =
     \<lparr>data = None, euler = None, playing = False, slider_max = Fin 0, slider_value = Fin 0,
      speed_value = Fin 1, tVal = None, posPlot = None, velPlot = None, eulerPlot = None,
      three = None, navball_ready = False, heading_text = None, readout = [],
      cursorIndices = [], snapshots = [], alerts = [], canvas_aspect = aspect\<rparr>"

section \<open>Events and invariants\<close>

text \<open>
  What the user and the browser do to the controller: an animation frame (\<open>tick\<close>), a
  move of the slider, a click in a plot (with the handler's \<open>x\<close> and \<open>w\<close>), a click on
  play/pause, a choice of speed (any number, also none).  \<open>step\<close> is the state an event
  leaves, also when its handler throws; \<open>run\<close> is a sequence of events.
\<close>

datatype event = Tick | SliderInput jsnum | PlotClick jsnum jsnum | PlayPause | SetSpeed jsnum

fun step :: "rounding \<Rightarrow> app_state \<Rightarrow> event \<Rightarrow> app_state" where
  "step rd st Tick = fst (tick rd st)"
| "step rd st (SliderInput j) = fst (timeSlider_input rd st j)"
| "step rd st (PlotClick x w) = fst (handlePlotClick rd st x w)"
| "step rd st PlayPause = playPause_click st"
| "step rd st (SetSpeed v) = st\<lparr>speed_value := v\<rparr>"

definition run :: "rounding \<Rightarrow> app_state \<Rightarrow> event list \<Rightarrow> app_state" where
  "run rd st evs = foldl (step rd) st evs"

text \<open>
  \<open>is_index N v\<close>: the number \<open>v\<close> is an integer within \<open>[0, N - 1]\<close>.
  \<open>is_step v\<close>: the number is a whole number of samples, forwards or backwards, of
  magnitude at most \<open>2 ^ 52\<close>.
  \<open>complete_record d\<close>: the four required channels of the record have one entry for every
  time (both loaders return equally long channels), every time is there and every position
  has its first component, the two values whose absence makes \<open>onTimeChange\<close> throw.
  \<open>controller_inv N st\<close>: a complete record of \<open>N\<close> samples and its Euler angles are
  installed, \<open>N\<close> is at least 1 and at most \<open>2 ^ 52\<close>, the slider's maximum is
  \<open>N - 1\<close> and the slider holds an index.
\<close>

definition is_index :: "nat \<Rightarrow> jsnum \<Rightarrow> bool" where
  "is_index N v = (case v of Fin r \<Rightarrow> 0 \<le> r \<and> r = of_int \<lfloor>r\<rfloor> \<and> nat \<lfloor>r\<rfloor> < N | _ \<Rightarrow> False)"

definition is_step :: "jsnum \<Rightarrow> bool" where
  "is_step v = (case v of Fin r \<Rightarrow> r = of_int \<lfloor>r\<rfloor> \<and> \<bar>r\<bar> \<le> 2 ^ 52 | _ \<Rightarrow> False)"

definition complete_record :: "parsed \<Rightarrow> bool" where
  "complete_record d =
     (length (traj_pos d) = length (traj_t d) \<and> length (traj_vel d) = length (traj_t d)
      \<and> length (traj_quat d) = length (traj_t d) \<and> list_all is_num (traj_t d)
      \<and> list_all is_num (map fst (traj_pos d)))"

definition controller_inv :: "nat \<Rightarrow> app_state \<Rightarrow> bool" where
  "controller_inv N st =
     (case (data st, euler st) of
        (Some d, Some e) \<Rightarrow>
          complete_record d \<and> length (traj_t d) = N \<and> length e = N \<and> 0 < N \<and> real N \<le> 2 ^ 52
          \<and> slider_max st = Fin (real N - 1) \<and> is_index N (slider_value st)
      | _ \<Rightarrow> False)"

text \<open>
  \<open>clamp_index N k\<close> is the whole number \<open>k\<close> brought into \<open>[0, N - 1]\<close>.
\<close>

definition clamp_index :: "nat \<Rightarrow> int \<Rightarrow> nat" where
  "clamp_index N k = nat (max 0 (min (int N - 1) k))"

definition int_of :: "jsnum \<Rightarrow> int" where
  "int_of v = (case v of Fin r \<Rightarrow> \<lfloor>r\<rfloor> | _ \<Rightarrow> 0)"

text \<open>
  The logical columns of a record, by name: \<open>channel name d\<close> is the column's value at
  every sample.
\<close>

definition channel :: "string \<Rightarrow> parsed \<Rightarrow> jsval list" where
  "channel name d =
     (if name = ''t'' then traj_t d
      else if name = ''x'' then map (\<lambda>(a, b, c). a) (traj_pos d)
      else if name = ''y'' then map (\<lambda>(a, b, c). b) (traj_pos d)
      else if name = ''z'' then map (\<lambda>(a, b, c). c) (traj_pos d)
      else if name = ''vx'' then map (\<lambda>(a, b, c). a) (traj_vel d)
      else if name = ''vy'' then map (\<lambda>(a, b, c). b) (traj_vel d)
      else if name = ''vz'' then map (\<lambda>(a, b, c). c) (traj_vel d)
      else if name = ''qw'' then map (\<lambda>(w, x, y, z). w) (traj_quat d)
      else if name = ''qx'' then map (\<lambda>(w, x, y, z). x) (traj_quat d)
      else if name = ''qy'' then map (\<lambda>(w, x, y, z). y) (traj_quat d)
      else if name = ''qz'' then map (\<lambda>(w, x, y, z). z) (traj_quat d)
      else if name = ''omx'' then map (\<lambda>(a, b, c). a) (traj_omega d)
      else if name = ''omy'' then map (\<lambda>(a, b, c). b) (traj_omega d)
      else if name = ''omz'' then map (\<lambda>(a, b, c). c) (traj_omega d)
      else if name = ''fuel'' then traj_fuel d
      else [])"

definition required_columns :: "string list" where
  "required_columns = [''t'', ''x'', ''y'', ''z'', ''vx'', ''vy'', ''vz'', ''qw'', ''qx'', ''qy'', ''qz'']"

definition rate_columns :: "string list" where
  "rate_columns = [''omx'', ''omy'', ''omz'']"

text \<open>
  A column is present in a delimited text when the header names it and every data row has
  a cell at its position; it is present in a table when the table has a field of the name
  that holds a value for every entry of the time column.
\<close>

definition csv_has :: "(string \<Rightarrow> jsnum) \<Rightarrow> string \<Rightarrow> string \<Rightarrow> bool" where
  "csv_has num text c =
     (case header_index (csv_headers text) c of
        None \<Rightarrow> False
      | Some k \<Rightarrow> list_all (\<lambda>row. k < length row) (csv_rows num text))"


text \<open>
  To run examples: a decoder that rejects every input, and the page after the file
  \<open>run.csv\<close> with the two samples above has been loaded into it.
\<close>

definition no_decoder :: "string \<Rightarrow> error + arrow_table" where
  "no_decoder blob = Inl (LoadError ''Invalid parquet file'')"

definition loaded_state :: app_state where
  "loaded_state =
     fileInput_change round_double num_digits no_decoder (initial_state (Fin (3 / 2)))
       (Some (''run.csv'', csv_required_only))"


text \<open>
  A columnar table of 100 samples with the eleven required columns and the record that
  \<open>loadParquet\<close> builds from it; the page after that record has been installed and
  play has been clicked.
\<close>

definition table100 :: arrow_table where
  "table100 =
     [(''t'', map (\<lambda>i. Num (Fin (real i))) [0..<100]),
      (''x'', replicate 100 (Num (Fin 0))), (''y'', replicate 100 (Num (Fin 0))),
      (''z'', map (\<lambda>i. Num (Fin (real i))) [0..<100]),
      (''vx'', replicate 100 (Num (Fin 0))), (''vy'', replicate 100 (Num (Fin 0))),
      (''vz'', replicate 100 (Num (Fin 1))),
      (''qw'', replicate 100 (Num (Fin 1))), (''qx'', replicate 100 (Num (Fin 0))),
      (''qy'', replicate 100 (Num (Fin 0))), (''qz'', replicate 100 (Num (Fin 0)))]"



definition playing100 :: app_state where
  "playing100 =
     playPause_click (fst (setData round_double (table_record table100) (initial_state (Fin (3 / 2)))))"

section \<open>Rounding: evaluation\<close>

lemma expo_eqI:
  assumes "(2::real) powi e \<le> \<bar>x\<bar>" and "\<bar>x\<bar> < (2::real) powi (e + 1)"
  shows "expo x = e"
proof -
  have pos: "0 < \<bar>x\<bar>"
    using assms(1) by (smt (verit) zero_less_power_int)
  have a: "(2::real) powr (real_of_int e) \<le> \<bar>x\<bar>"
    using assms(1) by (simp add: powr_real_of_int')
  have "(2::real) powr real_of_int (e + 1) = (2::real) powi (e + 1)"
    by (rule powr_real_of_int') simp_all
  then have b: "\<bar>x\<bar> < (2::real) powr (real_of_int (e + 1))"
    using assms(2) by simp
  have "\<lfloor>log 2 \<bar>x\<bar>\<rfloor> = e"
    using a b pos floor_log_eq_powr_iff[of "\<bar>x\<bar>" 2 e] by simp
  then show ?thesis by (simp add: expo_def)
qed

lemma rne_of_int [simp]: "rne (of_int n) = n"
  by (simp add: rne_def)

lemma round_double_normal:
  assumes "(2::real) powi e \<le> \<bar>x\<bar>" and "\<bar>x\<bar> < (2::real) powi (e + 1)" and "- 1022 \<le> e"
    and "rne (x / 2 powi (e - 52)) = n"
    and "\<bar>(2::real) powi (e - 52) * of_int n\<bar> < 2 ^ 1024"
  shows "round_double x = Fin (2 powi (e - 52) * of_int n)"
proof -
  have e: "expo x = e" using assms(1,2) by (rule expo_eqI)
  have "x \<noteq> 0"
    using assms(1) by (smt (verit) zero_less_power_int)
  then show ?thesis
    using assms(3,4,5) by (simp add: round_double_def e Let_def max_def overflow_threshold_def del: power_numeral)
qed

lemmas rd_eval = rne_def power_int_def power_one_over Let_def

lemma expo_le:
  assumes "x \<noteq> 0" and "\<bar>x\<bar> < (2::real) powi (e + 1)"
  shows "expo x \<le> e"
proof -
  have "(2::real) powr real_of_int (e + 1) = (2::real) powi (e + 1)"
    by (rule powr_real_of_int') simp_all
  then have "\<bar>x\<bar> < 2 powr real_of_int (e + 1)"
    using assms(2) by simp
  then have "log 2 \<bar>x\<bar> < real_of_int (e + 1)"
    using assms(1) by (simp add: log_less_iff)
  then have "\<lfloor>log 2 \<bar>x\<bar>\<rfloor> < e + 1"
    by (subst floor_less_iff) simp
  then show ?thesis by (simp add: expo_def)
qed

lemma round_double_representable:
  assumes m: "m \<noteq> 0" "\<bar>m\<bar> < 2 ^ 53" and k: "- 1074 \<le> k"
    and fin: "\<bar>of_int m * (2::real) powi k\<bar> < 2 ^ 1024"
  shows "round_double (of_int m * 2 powi k) = Fin (of_int m * 2 powi k)"
proof -
  define x :: real where "x = of_int m * 2 powi k"
  define e where "e = max (expo x) (- 1022)"
  define j where "j = nat (k - (e - 52))"
  have x0: "x \<noteq> 0" using m(1) by (simp add: x_def)
  have "\<bar>real_of_int m\<bar> < 2 ^ 53"
    using m(2) by (metis of_int_abs of_int_less_numeral_power_cancel_iff)
  then have "\<bar>x\<bar> < 2 ^ 53 * 2 powi k"
    by (simp add: x_def abs_mult)
  also have "\<dots> = 2 powi (52 + k + 1)"
    by (simp add: power_int_add)
  finally have "expo x \<le> 52 + k"
    using x0 by (intro expo_le) auto
  then have le: "e - 52 \<le> k"
    using k by (simp add: e_def)
  then have kj: "k = (e - 52) + int j" by (simp add: j_def)
  have "x / 2 powi (e - 52) = of_int m * 2 powi (int j)"
    unfolding x_def by (subst kj) (simp add: power_int_add)
  also have "\<dots> = of_int (m * 2 ^ j)" by simp
  finally have r: "rne (x / 2 powi (e - 52)) = m * 2 ^ j"
    by (simp only: rne_of_int)
  have "2 powi (e - 52) * (of_int m * (2::real) powi (int j)) = of_int m * 2 powi ((e - 52) + int j)"
    by (simp add: power_int_add)
  then have y: "2 powi (e - 52) * of_int (m * 2 ^ j) = x"
    unfolding x_def using kj by simp
  have y': "2 powi (e - 52) * (real_of_int m * 2 ^ j) = x"
    using y by simp
  show ?thesis
    using x0 fin unfolding x_def[symmetric]
    by (simp add: round_double_def Let_def e_def[symmetric] r y' overflow_threshold_def del: power_numeral)
qed

lemma round_double_of_int:
  assumes "\<bar>n\<bar> < 2 ^ 53"
  shows "round_double (of_int n) = Fin (of_int n)"
proof (cases "n = 0")
  case True
  then show ?thesis by (simp add: round_double_def)
next
  case False
  have "\<bar>real_of_int n\<bar> < 2 ^ 53"
    using assms by (metis of_int_abs of_int_less_numeral_power_cancel_iff)
  also have "\<dots> < (2::real) ^ 1024" by simp
  finally show ?thesis
    using round_double_representable[of n 0] False assms by simp
qed

lemma round_double_quarter: "round_double (1 / 4) = Fin (1 / 4)"
  using round_double_representable[of 1 "- 2"] by (simp add: power_int_def power_one_over)

lemma round_double_half: "round_double (1 / 2) = Fin (1 / 2)"
  using round_double_representable[of 1 "- 1"] by (simp add: power_int_def power_one_over)

lemma round_double_neg_quarter: "round_double (- (1 / 4)) = Fin (- (1 / 4))"
  using round_double_representable[of "- 1" "- 2"] by (simp add: power_int_def power_one_over)

lemma round_double_numeral [simp]:
  "\<bar>numeral n :: int\<bar> < 2 ^ 53 \<Longrightarrow> round_double (numeral n) = Fin (numeral n)"
  using round_double_of_int[of "numeral n"] by simp

lemma round_double_neg_numeral [simp]:
  "\<bar>numeral n :: int\<bar> < 2 ^ 53 \<Longrightarrow> round_double (- numeral n) = Fin (- numeral n)"
  using round_double_of_int[of "- numeral n"] by simp

lemma round_double_0 [simp]: "round_double 0 = Fin 0"
  by (simp add: round_double_def)

lemma round_double_1 [simp]: "round_double 1 = Fin 1"
  using round_double_of_int[of 1] by simp

text \<open>
  Rounding to nearest moves a value by at most half a unit in the last place: below 8 in
  magnitude, by at most \<open>2 ^ -51\<close>.
\<close>

lemma rne_bound: "\<bar>real_of_int (rne r) - r\<bar> \<le> 1 / 2"
proof -
  have "real_of_int \<lfloor>r\<rfloor> \<le> r" "r < real_of_int \<lfloor>r\<rfloor> + 1" by linarith+
  then show ?thesis
    by (auto simp: rne_def Let_def)
qed

lemma round_double_error:
  assumes "\<bar>t\<bar> < 8"
  shows "\<exists>y. round_double t = Fin y \<and> \<bar>y - t\<bar> \<le> 1 / 2 ^ 51"
proof (cases "t = 0")
  case True
  then show ?thesis by (simp add: round_double_def)
next
  case False
  define e where "e = max (expo t) (- 1022)"
  define q :: real where "q = 2 powi (e - 52)"
  define y where "y = q * of_int (rne (t / q))"
  have "\<bar>t\<bar> < 2 powi (2 + 1)" using assms by simp
  then have "expo t \<le> 2" using False by (intro expo_le)
  then have e: "e \<le> 2" by (simp add: e_def)
  have q0: "0 < q" by (simp add: q_def)
  have "q \<le> 2 powi (- 50)"
    unfolding q_def using e by (intro power_int_increasing) auto
  then have q1: "q \<le> 1 / 2 ^ 50" by (simp add: power_int_minus field_simps)
  have r: "\<bar>real_of_int (rne (t / q)) - t / q\<bar> \<le> 1 / 2" by (rule rne_bound)
  have "y - t = q * (real_of_int (rne (t / q)) - t / q)"
    using q0 by (simp add: y_def field_simps)
  then have "\<bar>y - t\<bar> = q * \<bar>real_of_int (rne (t / q)) - t / q\<bar>"
    using q0 by (simp add: abs_mult)
  also have "\<dots> \<le> q * (1 / 2)"
    using r q0 by (intro mult_left_mono) simp_all
  also have "\<dots> \<le> 1 / 2 ^ 50 * (1 / 2)"
    using q1 by simp
  finally have err: "\<bar>y - t\<bar> \<le> 1 / 2 ^ 51" by simp
  have "(1::real) / 2 ^ 51 \<le> 1" by simp
  then have "\<bar>y\<bar> \<le> 9" using err assms by linarith
  also have "(9::real) < 2 ^ 1024"
    using power_strict_increasing[of 4 1024 "2::real"] by simp
  finally have "\<not> overflow_threshold \<le> \<bar>y\<bar>"
    by (simp add: overflow_threshold_def del: power_numeral)
  then have "round_double t = Fin y"
    using False by (simp add: round_double_def Let_def e_def[symmetric] q_def[symmetric] y_def[symmetric])
  then show ?thesis using err by blast
qed
section \<open>Attitude math: the gimbal-lock guard\<close>

lemma half_pi_double:
  "js_div round_double Math_PI (Fin 2) = Fin (884279719003555 / 2 ^ 49)"
  using round_double_representable[of 884279719003555 "- 49"]
  by (simp add: Math_PI_def power_int_def power_one_over)

lemma half_pi_double_pos:
  "round_double (884279719003555 / 562949953421312) = Fin (884279719003555 / 562949953421312)"
  using round_double_representable[of 884279719003555 "- 49"]
  by (simp add: power_int_def power_one_over)

lemma half_pi_double_neg:
  "round_double (- (884279719003555 / 562949953421312)) = Fin (- (884279719003555 / 562949953421312))"
  using round_double_representable[of "- 884279719003555" "- 49"]
  by (simp add: power_int_def power_one_over)

lemma quatToEuler_pitch:
  "pitch_of (quatToEuler rd q) =
     (let sinp = quat_sinp rd q
      in if js_ge (Math_abs sinp) (Fin 1)
         then js_mul rd (Math_sign sinp) (js_div rd Math_PI (Fin 2))
         else Math_asin rd sinp)"
  by (cases q) (simp add: quatToEuler_def pitch_of_def Let_def)

lemma quat_sinp_q_gimbal: "quat_sinp round_double (quat_of q_gimbal) = Fin 1"
  by (simp add: quat_sinp_def q_gimbal_def quat_of_def js_sub_def round_double_quarter round_double_half
      round_double_neg_quarter)

text \<open>
  C3.  Whenever the computed pitch sine \<open>2 * (w * y - z * x)\<close> has magnitude at least 1,
  the pitch that \<open>quatToEuler\<close> returns is \<open>Math.PI / 2\<close> with the sign of that
  sine: the binary64 value \<open>884279719003555 / 2 ^ 49\<close> or its negation.  It is never
  NaN, and \<open>Math.asin\<close> is not reached.
\<close>

theorem quatToEuler_gimbal_lock_pitch:
  assumes "js_ge (Math_abs (quat_sinp round_double q)) (Fin 1)"
  shows "pitch_of (quatToEuler round_double q) =
           (if js_lt (Fin 0) (quat_sinp round_double q)
            then Fin (884279719003555 / 2 ^ 49) else Fin (- (884279719003555 / 2 ^ 49)))
         \<and> pitch_of (quatToEuler round_double q) \<noteq> NaN
         \<and> js_div round_double Math_PI (Fin 2) = Fin (884279719003555 / 2 ^ 49)"
proof (cases "quat_sinp round_double q")
  case (Fin s)
  with assms have "1 \<le> \<bar>s\<bar>" by (auto simp: js_ge_def)
  then consider "0 < s" "sgn s = 1" | "s < 0" "\<not> 0 < s" "sgn s = - 1"
    by (cases "0 < s") auto
  then show ?thesis
    using assms Fin
    by cases (simp_all add: quatToEuler_pitch half_pi_double half_pi_double_pos half_pi_double_neg)
next
  case PInf
  then show ?thesis
    by (simp add: quatToEuler_pitch half_pi_double half_pi_double_pos js_ge_def)
next
  case NInf
  then show ?thesis
    by (simp add: quatToEuler_pitch half_pi_double half_pi_double_neg js_ge_def)
next
  case NaN
  with assms show ?thesis by (simp add: js_ge_def)
qed

theorem quatToEuler_gimbal_lock_pitch_witness:
  "js_ge (Math_abs (quat_sinp round_double (quat_of q_gimbal))) (Fin 1)
   \<and> pitch_of (quatToEuler round_double (quat_of q_gimbal)) = Fin (884279719003555 / 2 ^ 49)"
proof -
  have h: "js_ge (Math_abs (quat_sinp round_double (quat_of q_gimbal))) (Fin 1)"
    by (simp add: quat_sinp_q_gimbal js_ge_def)
  show ?thesis
    using h quatToEuler_gimbal_lock_pitch[OF h] by (simp add: quat_sinp_q_gimbal)
qed

section \<open>Attitude math: the round trip\<close>

lemma arctan_quotient:
  assumes x: "x \<noteq> 0"
  shows "cos (arctan (y / x)) = \<bar>x\<bar> / sqrt (x\<^sup>2 + y\<^sup>2)"
    and "sin (arctan (y / x)) = y * \<bar>x\<bar> / (x * sqrt (x\<^sup>2 + y\<^sup>2))"
proof -
  have "1 + (y / x)\<^sup>2 = (x\<^sup>2 + y\<^sup>2) / x\<^sup>2"
    using x by (simp add: field_simps power2_eq_square)
  then have r: "sqrt (1 + (y / x)\<^sup>2) = sqrt (x\<^sup>2 + y\<^sup>2) / \<bar>x\<bar>"
    by (simp add: real_sqrt_divide)
  show "cos (arctan (y / x)) = \<bar>x\<bar> / sqrt (x\<^sup>2 + y\<^sup>2)"
    by (simp only: cos_arctan r) simp
  show "sin (arctan (y / x)) = y * \<bar>x\<bar> / (x * sqrt (x\<^sup>2 + y\<^sup>2))"
    by (simp only: sin_arctan r) simp
qed

lemma atan2_cos_sin:
  assumes "x \<noteq> 0 \<or> y \<noteq> 0"
  shows "cos (atan2 y x) = x / sqrt (x\<^sup>2 + y\<^sup>2)" and "sin (atan2 y x) = y / sqrt (x\<^sup>2 + y\<^sup>2)"
proof -
  show "cos (atan2 y x) = x / sqrt (x\<^sup>2 + y\<^sup>2)"
  proof (cases "x = 0")
    case True
    then show ?thesis using assms by (auto simp: atan2_def)
  next
    case False
    then show ?thesis
      by (auto simp: atan2_def arctan_quotient)
  qed
  show "sin (atan2 y x) = y / sqrt (x\<^sup>2 + y\<^sup>2)"
  proof (cases "x = 0")
    case True
    then show ?thesis using assms by (auto simp: atan2_def)
  next
    case False
    then show ?thesis
      by (auto simp: atan2_def arctan_quotient)
  qed
qed

lemma quatToEuler_exact:
  assumes "\<bar>2 * (w * y - z * x)\<bar> < 1"
  shows "quatToEuler exact (quat_of (w, x, y, z)) =
           (Fin (atan2 (2 * (w * x + y * z)) (1 - 2 * (x * x + y * y))),
            Fin (arcsin (2 * (w * y - z * x))),
            Fin (atan2 (2 * (w * z + x * y)) (1 - 2 * (y * y + z * z))))"
proof -
  have a: "1 + (- (2 * (x * x)) - 2 * (y * y)) = 1 - (2 * (x * x) + 2 * (y * y))"
    and b: "1 + (- (2 * (y * y)) - 2 * (z * z)) = 1 - (2 * (y * y) + 2 * (z * z))"
    by simp_all
  have "- 1 \<le> 2 * (w * y) - 2 * (z * x)" and "2 * (w * y) - 2 * (z * x) \<le> 1"
    using assms by (simp_all add: abs_less_iff)
  then show ?thesis
    using assms
    by (simp add: quatToEuler_def quat_of_def quat_sinp_def exact_def js_sub_def js_ge_def Let_def a b)
qed

lemma rotate_euler_matrix:
  assumes c: "0 < c" and cp: "cos p = c" and sp: "sin p = s"
    and cr: "cos r = B / c" and sr: "sin r = A / c"
    and cy: "cos yw = D / c" and sy: "sin yw = C / c"
  shows "rotate_euler (r, p, yw) (a, b, d) =
           (D * a + (D * s * A - C * B) / c\<^sup>2 * b + (D * s * B + C * A) / c\<^sup>2 * d,
            C * a + (C * s * A + D * B) / c\<^sup>2 * b + (C * s * B - D * A) / c\<^sup>2 * d,
            - s * a + A * b + B * d)"
  using c by (simp add: rotate_euler_def rot_x_def rot_y_def rot_z_def cp sp cr sr cy sy
      power2_eq_square field_simps)

lemma quat_identities:
  fixes w x y z :: real
  assumes u: "w\<^sup>2 + x\<^sup>2 + y\<^sup>2 + z\<^sup>2 = 1"
  shows "(2 * (w * x + y * z))\<^sup>2 + (1 - 2 * (x * x + y * y))\<^sup>2 = 1 - (2 * (w * y - z * x))\<^sup>2"
    and "(2 * (w * z + x * y))\<^sup>2 + (1 - 2 * (y * y + z * z))\<^sup>2 = 1 - (2 * (w * y - z * x))\<^sup>2"
    and "(1 - 2 * (y * y + z * z)) * (2 * (w * y - z * x)) * (2 * (w * x + y * z))
         - (2 * (w * z + x * y)) * (1 - 2 * (x * x + y * y))
       = 2 * (x * y - w * z) * (1 - (2 * (w * y - z * x))\<^sup>2)"
    and "(1 - 2 * (y * y + z * z)) * (2 * (w * y - z * x)) * (1 - 2 * (x * x + y * y))
         + (2 * (w * z + x * y)) * (2 * (w * x + y * z))
       = 2 * (x * z + w * y) * (1 - (2 * (w * y - z * x))\<^sup>2)"
    and "(2 * (w * z + x * y)) * (2 * (w * y - z * x)) * (2 * (w * x + y * z))
         + (1 - 2 * (y * y + z * z)) * (1 - 2 * (x * x + y * y))
       = (1 - 2 * (x\<^sup>2 + z\<^sup>2)) * (1 - (2 * (w * y - z * x))\<^sup>2)"
    and "(2 * (w * z + x * y)) * (2 * (w * y - z * x)) * (1 - 2 * (x * x + y * y))
         - (1 - 2 * (y * y + z * z)) * (2 * (w * x + y * z))
       = 2 * (y * z - w * x) * (1 - (2 * (w * y - z * x))\<^sup>2)"
  using u by algebra+

text \<open>
  The error of the five quantities that \<open>quatToEuler\<close> computes from the components
  of a quaternion of squared norm at most \<open>3 / 2\<close>, each the result of at most eight
  roundings of values below 8.
\<close>

lemma js_mul_error:
  assumes "\<bar>a * b\<bar> < 8"
  obtains y where "js_mul round_double (Fin a) (Fin b) = Fin y" and "\<bar>y - a * b\<bar> \<le> 1 / 2 ^ 51"
  using round_double_error[OF assms] by auto

lemma js_add_error:
  assumes "\<bar>a + b\<bar> < 8"
  obtains y where "js_add round_double (Fin a) (Fin b) = Fin y" and "\<bar>y - (a + b)\<bar> \<le> 1 / 2 ^ 51"
  using round_double_error[OF assms] by auto

lemma js_sub_error:
  assumes "\<bar>a - b\<bar> < 8"
  obtains y where "js_sub round_double (Fin a) (Fin b) = Fin y" and "\<bar>y - (a - b)\<bar> \<le> 1 / 2 ^ 51"
  using round_double_error[of "a - b"] assms by (auto simp: js_sub_def)

lemma abs_mult_le_1:
  fixes p q :: real
  assumes "\<bar>p\<bar> \<le> 1" and "\<bar>q\<bar> \<le> 1"
  shows "\<bar>p * q\<bar> \<le> 1"
  using assms by (simp add: abs_mult mult_le_one)

lemma error_chain:
  fixes d :: real
  assumes "\<bar>y1 - a\<bar> \<le> d" "\<bar>y2 - b\<bar> \<le> d"
  shows "\<bar>y3 - (y1 + y2)\<bar> \<le> d \<Longrightarrow> \<bar>y4 - 2 * y3\<bar> \<le> d \<Longrightarrow> \<bar>y4 - 2 * (a + b)\<bar> \<le> 7 * d"
    and "\<bar>y3 - (y1 - y2)\<bar> \<le> d \<Longrightarrow> \<bar>y4 - 2 * y3\<bar> \<le> d \<Longrightarrow> \<bar>y4 - 2 * (a - b)\<bar> \<le> 7 * d"
  using assms by argo+

lemma error_chain_minus:
  fixes d :: real
  assumes "\<bar>u - t\<bar> \<le> 7 * d" and "\<bar>y - (1 - u)\<bar> \<le> d"
  shows "\<bar>y - (1 - t)\<bar> \<le> 8 * d"
  using assms by argo

lemma bound_one_minus:
  fixes u :: real
  assumes "\<bar>u - 2 * (a + b)\<bar> \<le> k" and "k \<le> 1 / 2" and "\<bar>a\<bar> \<le> 3 / 2" and "\<bar>b\<bar> \<le> 3 / 2"
  shows "\<bar>1 - u\<bar> < 8"
  using assms by argo

lemma two_prod_sum_error:
  assumes pq: "\<bar>p * q\<bar> \<le> 3 / 2" and rs: "\<bar>r * s\<bar> \<le> 3 / 2"
  obtains v where
    "js_mul round_double (Fin 2)
       (js_add round_double (js_mul round_double (Fin p) (Fin q)) (js_mul round_double (Fin r) (Fin s)))
     = Fin v"
    and "\<bar>v - 2 * (p * q + r * s)\<bar> \<le> 7 / 2 ^ 51"
proof -
  have d: "(1::real) / 2 ^ 51 \<le> 1 / 8" by simp
  have "\<bar>p * q\<bar> < 8" "\<bar>r * s\<bar> < 8" using pq rs by linarith+
  then obtain y1 y2 where y1: "js_mul round_double (Fin p) (Fin q) = Fin y1" "\<bar>y1 - p * q\<bar> \<le> 1 / 2 ^ 51"
    and y2: "js_mul round_double (Fin r) (Fin s) = Fin y2" "\<bar>y2 - r * s\<bar> \<le> 1 / 2 ^ 51"
    using js_mul_error[of p q] js_mul_error[of r s] by metis
  have "\<bar>y1 + y2\<bar> < 8" using y1(2) y2(2) pq rs d by linarith
  then obtain y3 where y3: "js_add round_double (Fin y1) (Fin y2) = Fin y3" "\<bar>y3 - (y1 + y2)\<bar> \<le> 1 / 2 ^ 51"
    by (auto intro: js_add_error[of y1 y2])
  have "\<bar>2 * y3\<bar> < 8" using y1(2) y2(2) y3(2) pq rs d by linarith
  then obtain y4 where y4: "js_mul round_double (Fin 2) (Fin y3) = Fin y4" "\<bar>y4 - 2 * y3\<bar> \<le> 1 / 2 ^ 51"
    by (auto intro: js_mul_error[of 2 y3])
  have "\<bar>y4 - 2 * (p * q + r * s)\<bar> \<le> 7 / 2 ^ 51"
    using error_chain(1)[OF y1(2) y2(2) y3(2) y4(2)] by simp
  then show ?thesis using that y1(1) y2(1) y3(1) y4(1) by simp
qed

lemma two_prod_diff_error:
  assumes pq: "\<bar>p * q\<bar> \<le> 3 / 2" and rs: "\<bar>r * s\<bar> \<le> 3 / 2"
  obtains v where
    "js_mul round_double (Fin 2)
       (js_sub round_double (js_mul round_double (Fin p) (Fin q)) (js_mul round_double (Fin r) (Fin s)))
     = Fin v"
    and "\<bar>v - 2 * (p * q - r * s)\<bar> \<le> 7 / 2 ^ 51"
proof -
  have d: "(1::real) / 2 ^ 51 \<le> 1 / 8" by simp
  have "\<bar>p * q\<bar> < 8" "\<bar>r * s\<bar> < 8" using pq rs by linarith+
  then obtain y1 y2 where y1: "js_mul round_double (Fin p) (Fin q) = Fin y1" "\<bar>y1 - p * q\<bar> \<le> 1 / 2 ^ 51"
    and y2: "js_mul round_double (Fin r) (Fin s) = Fin y2" "\<bar>y2 - r * s\<bar> \<le> 1 / 2 ^ 51"
    using js_mul_error[of p q] js_mul_error[of r s] by metis
  have "\<bar>y1 - y2\<bar> < 8" using y1(2) y2(2) pq rs d by linarith
  then obtain y3 where y3: "js_sub round_double (Fin y1) (Fin y2) = Fin y3" "\<bar>y3 - (y1 - y2)\<bar> \<le> 1 / 2 ^ 51"
    by (auto intro: js_sub_error[of y1 y2])
  have "\<bar>2 * y3\<bar> < 8" using y1(2) y2(2) y3(2) pq rs d by linarith
  then obtain y4 where y4: "js_mul round_double (Fin 2) (Fin y3) = Fin y4" "\<bar>y4 - 2 * y3\<bar> \<le> 1 / 2 ^ 51"
    by (auto intro: js_mul_error[of 2 y3])
  have "\<bar>y4 - 2 * (p * q - r * s)\<bar> \<le> 7 / 2 ^ 51"
    using error_chain(2)[OF y1(2) y2(2) y3(2) y4(2)] by simp
  then show ?thesis using that y1(1) y2(1) y3(1) y4(1) by simp
qed

lemma one_minus_error:
  assumes pp: "\<bar>p * p\<bar> \<le> 3 / 2" and rr: "\<bar>r * r\<bar> \<le> 3 / 2"
  obtains v where
    "js_sub round_double (Fin 1)
       (js_mul round_double (Fin 2)
          (js_add round_double (js_mul round_double (Fin p) (Fin p)) (js_mul round_double (Fin r) (Fin r))))
     = Fin v"
    and "\<bar>v - (1 - 2 * (p * p + r * r))\<bar> \<le> 8 / 2 ^ 51"
proof -
  obtain u where u:
    "js_mul round_double (Fin 2)
       (js_add round_double (js_mul round_double (Fin p) (Fin p)) (js_mul round_double (Fin r) (Fin r)))
     = Fin u" "\<bar>u - 2 * (p * p + r * r)\<bar> \<le> 7 / 2 ^ 51"
    using assms by (auto intro: two_prod_sum_error[of p p r r])
  have "(7::real) / 2 ^ 51 \<le> 1 / 2" by simp
  then have "\<bar>1 - u\<bar> < 8" using bound_one_minus[OF u(2) _ pp rr] by blast
  then obtain y where y: "js_sub round_double (Fin 1) (Fin u) = Fin y" "\<bar>y - (1 - u)\<bar> \<le> 1 / 2 ^ 51"
    by (auto intro: js_sub_error[of 1 u])
  have "\<bar>y - (1 - 2 * (p * p + r * r))\<bar> \<le> 8 / 2 ^ 51"
    using error_chain_minus[of u "2 * (p * p + r * r)" "1 / 2 ^ 51" y] u(2) y(2) by simp
  then show ?thesis using that u(1) y(1) by simp
qed

lemma abs_prod_le: "\<bar>p * q\<bar> \<le> p\<^sup>2 + q\<^sup>2" for p q :: real
proof -
  have "2 * \<bar>p\<bar> * \<bar>q\<bar> \<le> \<bar>p\<bar>\<^sup>2 + \<bar>q\<bar>\<^sup>2" by (rule sum_squares_bound)
  moreover have "0 \<le> \<bar>p\<bar> * \<bar>q\<bar>" by simp
  ultimately have "\<bar>p\<bar> * \<bar>q\<bar> \<le> \<bar>p\<bar>\<^sup>2 + \<bar>q\<bar>\<^sup>2" by linarith
  then show ?thesis by (simp add: abs_mult)
qed

lemma quat_products:
  fixes w x y z :: real
  assumes "w\<^sup>2 + x\<^sup>2 + y\<^sup>2 + z\<^sup>2 \<le> 3 / 2"
  shows "\<bar>w * x\<bar> \<le> 3 / 2" "\<bar>y * z\<bar> \<le> 3 / 2" "\<bar>x * x\<bar> \<le> 3 / 2" "\<bar>y * y\<bar> \<le> 3 / 2"
    and "\<bar>w * y\<bar> \<le> 3 / 2" "\<bar>z * x\<bar> \<le> 3 / 2" "\<bar>w * z\<bar> \<le> 3 / 2" "\<bar>x * y\<bar> \<le> 3 / 2"
    and "\<bar>z * z\<bar> \<le> 3 / 2"
proof -
  have sq: "\<bar>x * x\<bar> = x\<^sup>2" "\<bar>y * y\<bar> = y\<^sup>2" "\<bar>z * z\<bar> = z\<^sup>2"
    by (simp_all add: power2_eq_square)
  note f = assms abs_prod_le[of w x] abs_prod_le[of y z] abs_prod_le[of w y] abs_prod_le[of z x]
    abs_prod_le[of w z] abs_prod_le[of x y] zero_le_power2[of w] zero_le_power2[of x]
    zero_le_power2[of y] zero_le_power2[of z]
  show "\<bar>w * x\<bar> \<le> 3 / 2" "\<bar>y * z\<bar> \<le> 3 / 2" "\<bar>w * y\<bar> \<le> 3 / 2" "\<bar>z * x\<bar> \<le> 3 / 2"
    "\<bar>w * z\<bar> \<le> 3 / 2" "\<bar>x * y\<bar> \<le> 3 / 2"
    using f by argo+
  show "\<bar>x * x\<bar> \<le> 3 / 2" "\<bar>y * y\<bar> \<le> 3 / 2" "\<bar>z * z\<bar> \<le> 3 / 2"
    unfolding sq using f by argo+
qed

lemma sin_lipschitz: "\<bar>sin a - sin b\<bar> \<le> \<bar>a - b\<bar>" for a b :: real
proof -
  have "\<bar>sin a - sin b\<bar> = 2 * \<bar>sin ((a - b) / 2)\<bar> * \<bar>cos ((a + b) / 2)\<bar>"
    by (simp add: sin_diff_sin abs_mult)
  also have "\<dots> \<le> 2 * \<bar>(a - b) / 2\<bar> * 1"
    by (intro mult_mono abs_sin_x_le_abs_x abs_cos_le_one) simp_all
  finally show ?thesis by simp
qed

lemma cos_lipschitz: "\<bar>cos a - cos b\<bar> \<le> \<bar>a - b\<bar>" for a b :: real
proof -
  have "\<bar>cos a - cos b\<bar> = 2 * \<bar>sin ((b - a) / 2)\<bar> * \<bar>sin ((a + b) / 2)\<bar>"
    by (simp add: cos_diff_cos abs_mult mult.commute)
  also have "\<dots> \<le> 2 * \<bar>(b - a) / 2\<bar> * 1"
    by (intro mult_mono abs_sin_x_le_abs_x abs_sin_le_one) simp_all
  finally show ?thesis by simp
qed

lemma atan2_bound: "\<bar>atan2 y x\<bar> < 8"
proof -
  have a: "\<bar>arctan (y / x)\<bar> < pi / 2"
    using arctan_bounded[of "y / x"] by linarith
  have p: "pi < 4" "0 < pi" by (rule pi_less_4, rule pi_gt_zero)
  have "atan2 y x = arctan (y / x) \<or> atan2 y x = arctan (y / x) + pi
        \<or> atan2 y x = arctan (y / x) - pi \<or> atan2 y x = pi / 2
        \<or> atan2 y x = - (pi / 2) \<or> atan2 y x = 0"
    by (simp add: atan2_def)
  then show ?thesis
    using a p by (elim disjE) linarith+
qed

lemma Math_atan2_error:
  obtains e where "Math_atan2 round_double (Fin y) (Fin x) = Fin (atan2 y x + e)"
    and "\<bar>e\<bar> \<le> 1 / 2 ^ 51"
proof -
  obtain v where v: "round_double (atan2 y x) = Fin v" "\<bar>v - atan2 y x\<bar> \<le> 1 / 2 ^ 51"
    using round_double_error[OF atan2_bound] by blast
  show ?thesis
    using that[of "v - atan2 y x"] v by simp
qed

lemma Math_asin_error:
  assumes "\<bar>s\<bar> \<le> 1"
  obtains e where "Math_asin round_double (Fin s) = Fin (arcsin s + e)" and "\<bar>e\<bar> \<le> 1 / 2 ^ 51"
proof -
  have "- 1 \<le> s" "s \<le> 1" using assms by (simp_all add: abs_le_iff)
  then have "\<bar>arcsin s\<bar> \<le> pi / 2"
    using arcsin_bounded[of s] by linarith
  then have "\<bar>arcsin s\<bar> < 8" using pi_less_4 by linarith
  then obtain v where v: "round_double (arcsin s) = Fin v" "\<bar>v - arcsin s\<bar> \<le> 1 / 2 ^ 51"
    using round_double_error by blast
  show ?thesis
    using that[of "v - arcsin s"] v assms by (simp add: abs_le_iff)
qed

lemma hypot_perturb:
  fixes A B A' B' h :: real
  assumes "\<bar>A' - A\<bar> \<le> h" and "\<bar>B' - B\<bar> \<le> h"
  shows "sqrt (B'\<^sup>2 + A'\<^sup>2) \<le> sqrt (B\<^sup>2 + A\<^sup>2) + 2 * h"
proof -
  have "sqrt ((B + (B' - B))\<^sup>2 + (A + (A' - A))\<^sup>2)
          \<le> sqrt (B\<^sup>2 + A\<^sup>2) + sqrt ((B' - B)\<^sup>2 + (A' - A)\<^sup>2)"
    by (rule real_sqrt_sum_squares_triangle_ineq)
  moreover have "sqrt ((B' - B)\<^sup>2 + (A' - A)\<^sup>2) \<le> \<bar>B' - B\<bar> + \<bar>A' - A\<bar>"
    by (rule sqrt_sum_squares_le_sum_abs)
  ultimately show ?thesis using assms by simp
qed

lemma abs_le_hypot: "\<bar>B\<bar> \<le> sqrt (B\<^sup>2 + A\<^sup>2)" "\<bar>A\<bar> \<le> sqrt (B\<^sup>2 + A\<^sup>2)"
proof -
  have "sqrt (B\<^sup>2) \<le> sqrt (B\<^sup>2 + A\<^sup>2)" "sqrt (A\<^sup>2) \<le> sqrt (B\<^sup>2 + A\<^sup>2)"
    by (simp_all del: real_sqrt_abs)
  then show "\<bar>B\<bar> \<le> sqrt (B\<^sup>2 + A\<^sup>2)" "\<bar>A\<bar> \<le> sqrt (B\<^sup>2 + A\<^sup>2)"
    by simp_all
qed

lemma quotient_perturb:
  fixes B B' c r h :: real
  assumes c: "0 < c" and r: "0 < r" and b: "\<bar>B'\<bar> \<le> r" and rc: "\<bar>c - r\<bar> \<le> 2 * h" and d: "\<bar>B' - B\<bar> \<le> h"
  shows "\<bar>B' / r - B / c\<bar> \<le> 3 * h / c"
proof -
  have e: "B' / r - B / c = (B' * (c - r) + r * (B' - B)) / (r * c)"
    using c r by (simp add: field_simps)
  have "\<bar>B' * (c - r) + r * (B' - B)\<bar> \<le> \<bar>B'\<bar> * \<bar>c - r\<bar> + r * \<bar>B' - B\<bar>"
    using r by (metis abs_mult abs_of_pos abs_triangle_ineq)
  also have "\<dots> \<le> r * (2 * h) + r * h"
    using b rc d r by (intro add_mono mult_mono) simp_all
  finally have n: "\<bar>B' * (c - r) + r * (B' - B)\<bar> \<le> r * (3 * h)" by (simp add: algebra_simps)
  have "\<bar>B' / r - B / c\<bar> = \<bar>B' * (c - r) + r * (B' - B)\<bar> / (r * c)"
    unfolding e using c r by (simp add: abs_mult)
  also have "\<dots> \<le> r * (3 * h) / (r * c)"
    using n c r by (intro divide_right_mono) simp_all
  also have "\<dots> = 3 * h / c" using r by simp
  finally show ?thesis .
qed

lemma unit_dir_perturb:
  fixes A B A' B' c h :: real
  assumes c: "0 < c" and n: "sqrt (B\<^sup>2 + A\<^sup>2) = c"
    and dA: "\<bar>A' - A\<bar> \<le> h" and dB: "\<bar>B' - B\<bar> \<le> h" and small: "2 * h < c"
  shows "0 < sqrt (B'\<^sup>2 + A'\<^sup>2)"
    and "\<bar>B' / sqrt (B'\<^sup>2 + A'\<^sup>2) - B / c\<bar> \<le> 3 * h / c"
    and "\<bar>A' / sqrt (B'\<^sup>2 + A'\<^sup>2) - A / c\<bar> \<le> 3 * h / c"
proof -
  define r where "r = sqrt (B'\<^sup>2 + A'\<^sup>2)"
  have "r \<le> c + 2 * h"
    using hypot_perturb[OF dA dB] by (simp add: r_def n)
  moreover have "c \<le> r + 2 * h"
    using hypot_perturb[of A A' h B B'] dA dB by (simp add: r_def n abs_minus_commute)
  ultimately have rc: "\<bar>c - r\<bar> \<le> 2 * h" by (simp add: abs_le_iff)
  then have r0: "0 < r" using small by (simp add: abs_le_iff)
  then show "0 < sqrt (B'\<^sup>2 + A'\<^sup>2)" by (simp add: r_def)
  have b: "\<bar>B'\<bar> \<le> r" "\<bar>A'\<bar> \<le> r" unfolding r_def by (rule abs_le_hypot)+
  show "\<bar>B' / sqrt (B'\<^sup>2 + A'\<^sup>2) - B / c\<bar> \<le> 3 * h / c"
    using quotient_perturb[OF c r0 b(1) rc dB] by (simp add: r_def)
  show "\<bar>A' / sqrt (B'\<^sup>2 + A'\<^sup>2) - A / c\<bar> \<le> 3 * h / c"
    using quotient_perturb[OF c r0 b(2) rc dA] by (simp add: r_def)
qed

lemma sqrt_perturb:
  fixes S S' c h :: real
  assumes c: "0 < c" and n: "sqrt (1 - S\<^sup>2) = c" and s': "\<bar>S'\<bar> \<le> 1" and d: "\<bar>S' - S\<bar> \<le> h"
  shows "\<bar>sqrt (1 - S'\<^sup>2) - c\<bar> \<le> 2 * h / c"
proof -
  define u where "u = sqrt (1 - S'\<^sup>2)"
  have s2: "S'\<^sup>2 \<le> 1" using s' by (simp add: abs_square_le_1)
  then have u0: "0 \<le> u" and u2: "u\<^sup>2 = 1 - S'\<^sup>2" by (simp_all add: u_def)
  have "0 < 1 - S\<^sup>2" using c n by (metis real_sqrt_gt_0_iff)
  then have c2: "c\<^sup>2 = 1 - S\<^sup>2" using n by auto
  have "S\<^sup>2 < 1" using \<open>0 < 1 - S\<^sup>2\<close> by simp
  then have s: "\<bar>S\<bar> < 1" by (simp add: abs_square_less_1)
  have "(u - c) * (u + c) = (S - S') * (S + S')"
    using u2 c2 by (simp add: algebra_simps power2_eq_square)
  then have "\<bar>u - c\<bar> * (u + c) = \<bar>S - S'\<bar> * \<bar>S + S'\<bar>"
    using u0 c by (metis abs_mult abs_of_pos add_nonneg_pos)
  also have "\<dots> \<le> h * 2"
  proof (intro mult_mono)
    show "\<bar>S - S'\<bar> \<le> h" using d by (simp add: abs_minus_commute)
    show "\<bar>S + S'\<bar> \<le> 2" using s s' by linarith
    show "0 \<le> h" using d by linarith
  qed simp
  finally have m: "\<bar>u - c\<bar> * (u + c) \<le> 2 * h" by simp
  have "\<bar>u - c\<bar> * c \<le> \<bar>u - c\<bar> * (u + c)"
    using u0 by (intro mult_left_mono) simp_all
  then have "\<bar>u - c\<bar> * c \<le> 2 * h" using m by linarith
  then show ?thesis
    using c by (simp add: u_def field_simps)
qed

lemma prod2_perturb:
  fixes x x' y y' e :: real
  assumes "\<bar>x'\<bar> \<le> 1" and "\<bar>y\<bar> \<le> 1" and "\<bar>x' - x\<bar> \<le> e" and "\<bar>y' - y\<bar> \<le> e"
  shows "\<bar>x' * y' - x * y\<bar> \<le> 2 * e"
proof -
  have e0: "0 \<le> e" using assms(3) by linarith
  have "x' * y' - x * y = x' * (y' - y) + (x' - x) * y" by (simp add: algebra_simps)
  then have "\<bar>x' * y' - x * y\<bar> \<le> \<bar>x'\<bar> * \<bar>y' - y\<bar> + \<bar>x' - x\<bar> * \<bar>y\<bar>"
    by (metis abs_mult abs_triangle_ineq)
  also have "\<dots> \<le> 1 * e + e * 1"
    using assms e0 by (intro add_mono mult_mono) simp_all
  finally show ?thesis by simp
qed

lemma prod3_perturb:
  fixes x x' y y' z z' e :: real
  assumes "\<bar>x'\<bar> \<le> 1" and "\<bar>y'\<bar> \<le> 1" and "\<bar>y\<bar> \<le> 1" and "\<bar>z\<bar> \<le> 1"
    and "\<bar>x' - x\<bar> \<le> e" and "\<bar>y' - y\<bar> \<le> e" and "\<bar>z' - z\<bar> \<le> e"
  shows "\<bar>x' * y' * z' - x * y * z\<bar> \<le> 3 * e"
proof -
  have e0: "0 \<le> e" using assms(5) by linarith
  have xy: "\<bar>x' * y'\<bar> \<le> 1" using assms(1,2) by (rule abs_mult_le_1)
  have p: "\<bar>x' * y' - x * y\<bar> \<le> 2 * e" using assms(1,3,5,6) by (rule prod2_perturb)
  have "x' * y' * z' - x * y * z = (x' * y') * (z' - z) + (x' * y' - x * y) * z"
    by (simp add: algebra_simps)
  then have "\<bar>x' * y' * z' - x * y * z\<bar> \<le> \<bar>x' * y'\<bar> * \<bar>z' - z\<bar> + \<bar>x' * y' - x * y\<bar> * \<bar>z\<bar>"
    by (metis abs_mult abs_triangle_ineq)
  also have "\<dots> \<le> 1 * e + (2 * e) * 1"
    using assms xy p e0 by (intro add_mono mult_mono) simp_all
  finally show ?thesis by simp
qed

lemma scaled_bound:
  fixes P k a :: real
  assumes "\<bar>P\<bar> \<le> k"
  shows "\<bar>P * a\<bar> \<le> k * \<bar>a\<bar>"
  using assms by (simp add: abs_mult mult_right_mono)

lemma sum5_bound:
  fixes t1 t2 t3 t4 t5 :: real
  assumes "\<bar>t1\<bar> \<le> k1" "\<bar>t2\<bar> \<le> k2" "\<bar>t3\<bar> \<le> k3" "\<bar>t4\<bar> \<le> k4" "\<bar>t5\<bar> \<le> k5"
  shows "\<bar>t1 + t2 + t3 - t4 + t5\<bar> \<le> k1 + k2 + k3 + k4 + k5"
    and "\<bar>t1 + t2 + t3 + t4 - t5\<bar> \<le> k1 + k2 + k3 + k4 + k5"
  using assms by argo+

lemma sum3_bound:
  fixes t1 t2 t3 :: real
  assumes "\<bar>t1\<bar> \<le> k1" "\<bar>t2\<bar> \<le> k2" "\<bar>t3\<bar> \<le> k3"
  shows "\<bar>- t1 + t2 + t3\<bar> \<le> k1 + k2 + k3"
  using assms by argo

lemma rotate_euler_components:
  "rotate_euler (r, p, yw) (a, b, d) =
     (cos yw * cos p * a + cos yw * sin p * sin r * b + cos yw * sin p * cos r * d
        - sin yw * cos r * b + sin yw * sin r * d,
      sin yw * cos p * a + sin yw * sin p * sin r * b + sin yw * sin p * cos r * d
        + cos yw * cos r * b - cos yw * sin r * d,
      - (sin p * a) + cos p * sin r * b + cos p * cos r * d)"
  by (simp add: rotate_euler_def rot_x_def rot_y_def rot_z_def algebra_simps)

lemma sqrt3_le_sum_abs: "sqrt (x\<^sup>2 + y\<^sup>2 + z\<^sup>2) \<le> \<bar>x\<bar> + \<bar>y\<bar> + \<bar>z\<bar>"
proof -
  have "sqrt (x\<^sup>2 + y\<^sup>2 + z\<^sup>2) = sqrt ((sqrt (x\<^sup>2 + y\<^sup>2))\<^sup>2 + z\<^sup>2)" by simp
  also have "\<dots> \<le> \<bar>sqrt (x\<^sup>2 + y\<^sup>2)\<bar> + \<bar>z\<bar>" by (rule sqrt_sum_squares_le_sum_abs)
  also have "\<dots> \<le> \<bar>x\<bar> + \<bar>y\<bar> + \<bar>z\<bar>"
    using sqrt_sum_squares_le_sum_abs[of x y] by simp
  finally show ?thesis .
qed

lemma sum_abs_le_2_norm: "\<bar>a\<bar> + \<bar>b\<bar> + \<bar>d\<bar> \<le> 2 * sqrt (a\<^sup>2 + b\<^sup>2 + d\<^sup>2)" for a b d :: real
proof -
  have ab: "2 * (\<bar>a\<bar> * \<bar>b\<bar>) \<le> a\<^sup>2 + b\<^sup>2" using sum_squares_bound[of "\<bar>a\<bar>" "\<bar>b\<bar>"] by simp
  have ad: "2 * (\<bar>a\<bar> * \<bar>d\<bar>) \<le> a\<^sup>2 + d\<^sup>2" using sum_squares_bound[of "\<bar>a\<bar>" "\<bar>d\<bar>"] by simp
  have bd: "2 * (\<bar>b\<bar> * \<bar>d\<bar>) \<le> b\<^sup>2 + d\<^sup>2" using sum_squares_bound[of "\<bar>b\<bar>" "\<bar>d\<bar>"] by simp
  have "(\<bar>a\<bar> + \<bar>b\<bar> + \<bar>d\<bar>)\<^sup>2 = a\<^sup>2 + b\<^sup>2 + d\<^sup>2 + 2 * (\<bar>a\<bar> * \<bar>b\<bar>) + 2 * (\<bar>a\<bar> * \<bar>d\<bar>) + 2 * (\<bar>b\<bar> * \<bar>d\<bar>)"
    by (simp add: power2_eq_square algebra_simps)
  also have "\<dots> \<le> 4 * (a\<^sup>2 + b\<^sup>2 + d\<^sup>2)"
    using ab ad bd zero_le_power2[of a] zero_le_power2[of b] zero_le_power2[of d] by argo
  finally have "\<bar>a\<bar> + \<bar>b\<bar> + \<bar>d\<bar> \<le> sqrt (4 * (a\<^sup>2 + b\<^sup>2 + d\<^sup>2))"
    by (rule real_le_rsqrt)
  also have "\<dots> = 2 * sqrt (a\<^sup>2 + b\<^sup>2 + d\<^sup>2)"
    by (rule real_sqrt_unique) (simp_all add: power_mult_distrib)
  finally show ?thesis .
qed

lemma rotate_euler_perturb:
  assumes cr: "\<bar>cos r' - cos r\<bar> \<le> e" and sr: "\<bar>sin r' - sin r\<bar> \<le> e"
    and cp: "\<bar>cos p' - cos p\<bar> \<le> e" and sp: "\<bar>sin p' - sin p\<bar> \<le> e"
    and cy: "\<bar>cos y' - cos yw\<bar> \<le> e" and sy: "\<bar>sin y' - sin yw\<bar> \<le> e"
  shows "dist3 (rotate_euler (r', p', y') (a, b, d)) (rotate_euler (r, p, yw) (a, b, d))
           \<le> 12 * e * (\<bar>a\<bar> + \<bar>b\<bar> + \<bar>d\<bar>)"
proof -
  have e0: "0 \<le> e" using cr by linarith
  note b1 = abs_cos_le_one abs_sin_le_one
  have x1: "\<bar>(cos y' * cos p' - cos yw * cos p) * a\<bar> \<le> 2 * e * \<bar>a\<bar>"
    by (intro scaled_bound prod2_perturb b1 cy cp)
  have x2: "\<bar>(cos y' * sin p' * sin r' - cos yw * sin p * sin r) * b\<bar> \<le> 3 * e * \<bar>b\<bar>"
    by (intro scaled_bound prod3_perturb b1 cy sp sr)
  have x3: "\<bar>(cos y' * sin p' * cos r' - cos yw * sin p * cos r) * d\<bar> \<le> 3 * e * \<bar>d\<bar>"
    by (intro scaled_bound prod3_perturb b1 cy sp cr)
  have x4: "\<bar>(sin y' * cos r' - sin yw * cos r) * b\<bar> \<le> 2 * e * \<bar>b\<bar>"
    by (intro scaled_bound prod2_perturb b1 sy cr)
  have x5: "\<bar>(sin y' * sin r' - sin yw * sin r) * d\<bar> \<le> 2 * e * \<bar>d\<bar>"
    by (intro scaled_bound prod2_perturb b1 sy sr)
  have y1: "\<bar>(sin y' * cos p' - sin yw * cos p) * a\<bar> \<le> 2 * e * \<bar>a\<bar>"
    by (intro scaled_bound prod2_perturb b1 sy cp)
  have y2: "\<bar>(sin y' * sin p' * sin r' - sin yw * sin p * sin r) * b\<bar> \<le> 3 * e * \<bar>b\<bar>"
    by (intro scaled_bound prod3_perturb b1 sy sp sr)
  have y3: "\<bar>(sin y' * sin p' * cos r' - sin yw * sin p * cos r) * d\<bar> \<le> 3 * e * \<bar>d\<bar>"
    by (intro scaled_bound prod3_perturb b1 sy sp cr)
  have y4: "\<bar>(cos y' * cos r' - cos yw * cos r) * b\<bar> \<le> 2 * e * \<bar>b\<bar>"
    by (intro scaled_bound prod2_perturb b1 cy cr)
  have y5: "\<bar>(cos y' * sin r' - cos yw * sin r) * d\<bar> \<le> 2 * e * \<bar>d\<bar>"
    by (intro scaled_bound prod2_perturb b1 cy sr)
  have z1: "\<bar>(sin p' - sin p) * a\<bar> \<le> e * \<bar>a\<bar>"
    by (intro scaled_bound sp)
  have z2: "\<bar>(cos p' * sin r' - cos p * sin r) * b\<bar> \<le> 2 * e * \<bar>b\<bar>"
    by (intro scaled_bound prod2_perturb b1 cp sr)
  have z3: "\<bar>(cos p' * cos r' - cos p * cos r) * d\<bar> \<le> 2 * e * \<bar>d\<bar>"
    by (intro scaled_bound prod2_perturb b1 cp cr)
  define X where "X = (cos y' * cos p' - cos yw * cos p) * a
      + (cos y' * sin p' * sin r' - cos yw * sin p * sin r) * b
      + (cos y' * sin p' * cos r' - cos yw * sin p * cos r) * d
      - (sin y' * cos r' - sin yw * cos r) * b + (sin y' * sin r' - sin yw * sin r) * d"
  define Y where "Y = (sin y' * cos p' - sin yw * cos p) * a
      + (sin y' * sin p' * sin r' - sin yw * sin p * sin r) * b
      + (sin y' * sin p' * cos r' - sin yw * sin p * cos r) * d
      + (cos y' * cos r' - cos yw * cos r) * b - (cos y' * sin r' - cos yw * sin r) * d"
  define Z where "Z = - ((sin p' - sin p) * a) + (cos p' * sin r' - cos p * sin r) * b
      + (cos p' * cos r' - cos p * cos r) * d"
  have X: "\<bar>X\<bar> \<le> 2 * e * \<bar>a\<bar> + 3 * e * \<bar>b\<bar> + 3 * e * \<bar>d\<bar> + 2 * e * \<bar>b\<bar> + 2 * e * \<bar>d\<bar>"
    unfolding X_def by (rule sum5_bound(1)[OF x1 x2 x3 x4 x5])
  have Y: "\<bar>Y\<bar> \<le> 2 * e * \<bar>a\<bar> + 3 * e * \<bar>b\<bar> + 3 * e * \<bar>d\<bar> + 2 * e * \<bar>b\<bar> + 2 * e * \<bar>d\<bar>"
    unfolding Y_def by (rule sum5_bound(2)[OF y1 y2 y3 y4 y5])
  have Z: "\<bar>Z\<bar> \<le> e * \<bar>a\<bar> + 2 * e * \<bar>b\<bar> + 2 * e * \<bar>d\<bar>"
    unfolding Z_def by (rule sum3_bound[OF z1 z2 z3])
  have "dist3 (rotate_euler (r', p', y') (a, b, d)) (rotate_euler (r, p, yw) (a, b, d))
          = sqrt (X\<^sup>2 + Y\<^sup>2 + Z\<^sup>2)"
    unfolding rotate_euler_components dist3_def X_def Y_def Z_def
    by (simp add: algebra_simps)
  also have "\<dots> \<le> \<bar>X\<bar> + \<bar>Y\<bar> + \<bar>Z\<bar>" by (rule sqrt3_le_sum_abs)
  also have "\<dots> \<le> e * (5 * \<bar>a\<bar> + 12 * \<bar>b\<bar> + 12 * \<bar>d\<bar>)"
    using X Y Z by (simp add: algebra_simps)
  also have "\<dots> \<le> e * (12 * (\<bar>a\<bar> + \<bar>b\<bar> + \<bar>d\<bar>))"
    using e0 by (intro mult_left_mono) simp_all
  finally show ?thesis by (simp add: algebra_simps)
qed

lemma exact_angles:
  assumes u: "unit_quat (w, x, y, z)" and ng: "\<bar>2 * (w * y - z * x)\<bar> < 1"
  defines "s \<equiv> 2 * (w * y - z * x)"
    and "A \<equiv> 2 * (w * x + y * z)" and "B \<equiv> 1 - 2 * (x * x + y * y)"
    and "C \<equiv> 2 * (w * z + x * y)" and "D \<equiv> 1 - 2 * (y * y + z * z)"
    and "c \<equiv> sqrt (1 - (2 * (w * y - z * x))\<^sup>2)"
  shows "0 < c" and "c \<le> 1"
    and "sqrt (B\<^sup>2 + A\<^sup>2) = c" and "sqrt (D\<^sup>2 + C\<^sup>2) = c"
    and "cos (arcsin s) = c" and "sin (arcsin s) = s"
    and "cos (atan2 A B) = B / c" and "sin (atan2 A B) = A / c"
    and "cos (atan2 C D) = D / c" and "sin (atan2 C D) = C / c"
    and "rotate_euler (atan2 A B, arcsin s, atan2 C D) v = rotate_quat (w, x, y, z) v"
proof -
  obtain a b d where v: "v = (a, b, d)" by (cases v)
  have un: "w\<^sup>2 + x\<^sup>2 + y\<^sup>2 + z\<^sup>2 = 1" using u by (simp add: unit_quat_def)
  note ids = quat_identities[OF un, folded s_def A_def B_def C_def D_def]
  have s1: "\<bar>s\<bar> < 1" using ng by (simp add: s_def)
  then have "s\<^sup>2 < 1" by (simp add: abs_square_less_1)
  then show c0: "0 < c" by (simp add: c_def s_def)
  have c2: "c\<^sup>2 = 1 - s\<^sup>2" using \<open>s\<^sup>2 < 1\<close> by (simp add: c_def s_def)
  have "1 - s\<^sup>2 \<le> 1" by simp
  then have "sqrt (1 - s\<^sup>2) \<le> sqrt 1" by (subst real_sqrt_le_iff)
  then show "c \<le> 1" by (simp add: c_def s_def)
  show cp: "cos (arcsin s) = c" and sp: "sin (arcsin s) = s"
    using s1 by (simp_all add: cos_arcsin c_def s_def abs_less_iff)
  show AB: "sqrt (B\<^sup>2 + A\<^sup>2) = c"
    using ids(1) by (simp add: c_def s_def add.commute)
  then have "B \<noteq> 0 \<or> A \<noteq> 0" using c0 by auto
  then show cr: "cos (atan2 A B) = B / c" and sr: "sin (atan2 A B) = A / c"
    using atan2_cos_sin[of B A] AB by simp_all
  show CD: "sqrt (D\<^sup>2 + C\<^sup>2) = c"
    using ids(2) by (simp add: c_def s_def add.commute)
  then have "D \<noteq> 0 \<or> C \<noteq> 0" using c0 by auto
  then show cy: "cos (atan2 C D) = D / c" and sy: "sin (atan2 C D) = C / c"
    using atan2_cos_sin[of D C] CD by simp_all
  have e12: "(D * s * A - C * B) / c\<^sup>2 = 2 * (x * y - w * z)"
    and e13: "(D * s * B + C * A) / c\<^sup>2 = 2 * (x * z + w * y)"
    and e22: "(C * s * A + D * B) / c\<^sup>2 = 1 - 2 * (x\<^sup>2 + z\<^sup>2)"
    and e23: "(C * s * B - D * A) / c\<^sup>2 = 2 * (y * z - w * x)"
    using c0 ids(3-6) by (simp_all add: c2[symmetric])
  have "rotate_euler (atan2 A B, arcsin s, atan2 C D) (a, b, d) = rotate_quat (w, x, y, z) (a, b, d)"
    unfolding rotate_euler_matrix[OF c0 cp sp cr sr cy sy] e12 e13 e22 e23
    by (simp add: rotate_quat_def A_def B_def C_def D_def s_def power2_eq_square algebra_simps)
  then show "rotate_euler (atan2 A B, arcsin s, atan2 C D) v = rotate_quat (w, x, y, z) v"
    by (simp add: v)
qed

lemma trig_diff_le_2: "\<bar>cos a - cos b\<bar> \<le> 2" "\<bar>sin a - sin b\<bar> \<le> 2" for a b :: real
proof -
  show "\<bar>cos a - cos b\<bar> \<le> 2"
    using abs_cos_le_one[of a] abs_cos_le_one[of b] by argo
  show "\<bar>sin a - sin b\<bar> \<le> 2"
    using abs_sin_le_one[of a] abs_sin_le_one[of b] by argo
qed

lemma angle_perturb:
  fixes A B A' B' c h e k :: real
  assumes c: "0 < c" and n: "sqrt (B\<^sup>2 + A\<^sup>2) = c"
    and dA: "\<bar>A' - A\<bar> \<le> h" and dB: "\<bar>B' - B\<bar> \<le> h" and small: "2 * h < c"
    and e: "\<bar>e\<bar> \<le> k"
  shows "\<bar>cos (atan2 A' B' + e) - B / c\<bar> \<le> 3 * h / c + k"
    and "\<bar>sin (atan2 A' B' + e) - A / c\<bar> \<le> 3 * h / c + k"
proof -
  note p = unit_dir_perturb[OF c n dA dB small]
  have nz: "B' \<noteq> 0 \<or> A' \<noteq> 0" using p(1) by auto
  have cs: "cos (atan2 A' B') = B' / sqrt (B'\<^sup>2 + A'\<^sup>2)"
    "sin (atan2 A' B') = A' / sqrt (B'\<^sup>2 + A'\<^sup>2)"
    using atan2_cos_sin[OF nz] by simp_all
  have "\<bar>cos (atan2 A' B' + e) - cos (atan2 A' B')\<bar> \<le> \<bar>e\<bar>"
    using cos_lipschitz[of "atan2 A' B' + e" "atan2 A' B'"] by simp
  then show "\<bar>cos (atan2 A' B' + e) - B / c\<bar> \<le> 3 * h / c + k"
    using p(2) e unfolding cs[symmetric] by argo
  have "\<bar>sin (atan2 A' B' + e) - sin (atan2 A' B')\<bar> \<le> \<bar>e\<bar>"
    using sin_lipschitz[of "atan2 A' B' + e" "atan2 A' B'"] by simp
  then show "\<bar>sin (atan2 A' B' + e) - A / c\<bar> \<le> 3 * h / c + k"
    using p(3) e unfolding cs[symmetric] by argo
qed

lemma pitch_perturb:
  fixes S S' c h e k :: real
  assumes c: "0 < c" and c1: "c \<le> 1" and n: "sqrt (1 - S\<^sup>2) = c" and s': "\<bar>S'\<bar> \<le> 1"
    and d: "\<bar>S' - S\<bar> \<le> h" and e: "\<bar>e\<bar> \<le> k"
  shows "\<bar>cos (arcsin S' + e) - c\<bar> \<le> 3 * h / c + k"
    and "\<bar>sin (arcsin S' + e) - S\<bar> \<le> 3 * h / c + k"
proof -
  have h0: "0 \<le> h" using d by linarith
  have s: "- 1 \<le> S'" "S' \<le> 1" using s' by (simp_all add: abs_le_iff)
  have cs: "cos (arcsin S') = sqrt (1 - S'\<^sup>2)" "sin (arcsin S') = S'"
    using s by (simp_all add: cos_arcsin)
  have "c * h \<le> 1 * h" using c1 h0 by (rule mult_right_mono)
  then have hc: "h \<le> h / c" using c by (simp add: field_simps)
  have q: "\<bar>sqrt (1 - S'\<^sup>2) - c\<bar> \<le> 2 * h / c"
    using c n s' d by (rule sqrt_perturb)
  have "\<bar>cos (arcsin S' + e) - cos (arcsin S')\<bar> \<le> \<bar>e\<bar>"
    using cos_lipschitz[of "arcsin S' + e" "arcsin S'"] by simp
  then have "\<bar>cos (arcsin S' + e) - c\<bar> \<le> 2 * h / c + k"
    using q e unfolding cs by argo
  moreover have "2 * h / c \<le> 3 * h / c"
    using h0 c by (simp add: divide_right_mono)
  ultimately show "\<bar>cos (arcsin S' + e) - c\<bar> \<le> 3 * h / c + k" by argo
  have "\<bar>sin (arcsin S' + e) - sin (arcsin S')\<bar> \<le> \<bar>e\<bar>"
    using sin_lipschitz[of "arcsin S' + e" "arcsin S'"] by simp
  then have "\<bar>sin (arcsin S' + e) - S\<bar> \<le> h + k"
    using d e unfolding cs by argo
  moreover have "h \<le> 3 * h / c" using hc h0 c by (simp add: field_simps)
  ultimately show "\<bar>sin (arcsin S' + e) - S\<bar> \<le> 3 * h / c + k" by argo
qed

text \<open>
  When the computed \<open>sinp\<close> reaches magnitude 1 the pitch is \<open>half_pi\<close> with the sign
  of \<open>sinp\<close>.  The cosine of \<open>half_pi\<close> is below \<open>2 ^ -52\<close> in magnitude, and the exact
  \<open>sinp\<close> is then within the rounding error of the boundary.
\<close>

lemma cos_poly_sum: "(\<Sum>m<26. cos_coeff m * x ^ m) = cos_poly (x * x)"
proof -
  have e: "(26::nat) = Suc (Suc (Suc (Suc (Suc (Suc (Suc (Suc (Suc (Suc (Suc (Suc (Suc (Suc (Suc (Suc
             (Suc (Suc (Suc (Suc (Suc (Suc (Suc (Suc (Suc (Suc 0)))))))))))))))))))))))))"
    by simp
  show ?thesis
    unfolding e cos_poly_def
    by (simp add: cos_coeff_def fact_numeral field_simps)
qed

lemma cos_poly_half_pi: "\<bar>cos_poly (half_pi * half_pi)\<bar> \<le> 1 / 2 ^ 53"
  by (simp add: cos_poly_def half_pi_def)

lemma half_pi_bounds: "0 < half_pi" "half_pi < 2"
  by (simp_all add: half_pi_def)

lemma cos_half_pi: "\<bar>cos half_pi\<bar> \<le> 1 / 2 ^ 52"
proof -
  obtain t where t: "cos half_pi = (\<Sum>m<26. cos_coeff m * half_pi ^ m)
      + (cos (t + 1 / 2 * real (26::nat) * pi) / fact 26) * half_pi ^ 26"
    using Maclaurin_cos_expansion[of half_pi 26] by blast
  define R where "R = (cos (t + 1 / 2 * real (26::nat) * pi) / fact 26) * half_pi ^ 26"
  have "half_pi ^ 26 \<le> 2 ^ 26"
    using half_pi_bounds by (intro power_mono) simp_all
  then have p: "\<bar>half_pi ^ 26\<bar> \<le> 2 ^ 26"
    using half_pi_bounds by simp
  have "\<bar>R\<bar> = \<bar>cos (t + 1 / 2 * real (26::nat) * pi)\<bar> * \<bar>half_pi ^ 26\<bar> / fact 26"
    by (simp add: R_def abs_mult)
  also have "\<dots> \<le> 1 * 2 ^ 26 / fact 26"
    using p by (intro divide_right_mono mult_mono abs_cos_le_one) simp_all
  also have "\<dots> \<le> 1 / 2 ^ 53"
    by (simp add: fact_numeral)
  finally have r: "\<bar>R\<bar> \<le> 1 / 2 ^ 53" .
  have "cos half_pi = cos_poly (half_pi * half_pi) + R"
    using t by (simp only: R_def cos_poly_sum)
  then have "\<bar>cos half_pi\<bar> \<le> 1 / 2 ^ 53 + 1 / 2 ^ 53"
    using cos_poly_half_pi r by linarith
  then show ?thesis by simp
qed

lemma sin_half_pi: "0 \<le> 1 - sin half_pi" "1 - sin half_pi \<le> 1 / 2 ^ 52"
proof -
  show "0 \<le> 1 - sin half_pi" by simp
  have "half_pi < pi" using half_pi_bounds(2) pi_ge_two by linarith
  then have s0: "0 \<le> sin half_pi"
    using half_pi_bounds(1) by (intro sin_ge_zero) simp_all
  have s1: "sin half_pi \<le> 1" by simp
  have "sin half_pi * sin half_pi \<le> 1 * sin half_pi"
    using s0 s1 by (intro mult_right_mono)
  then have "1 - sin half_pi \<le> 1 - (sin half_pi)\<^sup>2"
    by (simp add: power2_eq_square)
  also have "\<dots> = (cos half_pi)\<^sup>2"
    using sin_cos_squared_add[of half_pi] by linarith
  also have "\<dots> = \<bar>cos half_pi\<bar> * \<bar>cos half_pi\<bar>"
    by (simp add: power2_eq_square)
  also have "\<dots> \<le> 1 * \<bar>cos half_pi\<bar>"
    by (intro mult_right_mono) simp_all
  finally show "1 - sin half_pi \<le> 1 / 2 ^ 52"
    using cos_half_pi by linarith
qed

lemma half_pi_value: "js_div round_double Math_PI (Fin 2) = Fin half_pi"
proof -
  have "round_double (of_int 884279719003555 * 2 powi (- 49)) = Fin (of_int 884279719003555 * 2 powi (- 49))"
    by (rule round_double_representable) (simp_all add: power_int_minus)
  then show ?thesis
    by (simp add: Math_PI_def half_pi_def power_int_minus field_simps)
qed

lemma neg_half_pi_value: "round_double (- half_pi) = Fin (- half_pi)"
proof -
  have "round_double (of_int (- 884279719003555) * 2 powi (- 49)) = Fin (of_int (- 884279719003555) * 2 powi (- 49))"
    by (rule round_double_representable) (simp_all add: power_int_minus)
  then show ?thesis
    by (simp add: half_pi_def power_int_minus field_simps)
qed

lemma pos_half_pi_value: "round_double half_pi = Fin half_pi"
proof -
  have "round_double (of_int 884279719003555 * 2 powi (- 49)) = Fin (of_int 884279719003555 * 2 powi (- 49))"
    by (rule round_double_representable) (simp_all add: power_int_minus)
  then show ?thesis
    by (simp add: half_pi_def power_int_minus field_simps)
qed

lemma clamped_pitch:
  assumes "1 \<le> \<bar>S'\<bar>"
  shows "js_mul round_double (Math_sign (Fin S')) (js_div round_double Math_PI (Fin 2))
           = Fin (sgn S' * half_pi)"
proof (cases "0 < S'")
  case True
  then show ?thesis by (simp add: half_pi_value pos_half_pi_value)
next
  case False
  then have "S' < 0" using assms by linarith
  then show ?thesis by (simp add: half_pi_value neg_half_pi_value)
qed

lemma clamp_perturb:
  fixes S S' c h :: real
  assumes c0: "0 < c" and n: "sqrt (1 - S\<^sup>2) = c" and s: "\<bar>S\<bar> < 1"
    and s': "1 \<le> \<bar>S'\<bar>" and d: "\<bar>S' - S\<bar> \<le> h"
  shows "\<bar>cos (sgn S' * half_pi) - c\<bar> \<le> c + 1 / 2 ^ 52"
    and "\<bar>sin (sgn S' * half_pi) - S\<bar> \<le> h + 1 / 2 ^ 52"
    and "c\<^sup>2 \<le> 2 * h"
proof -
  have sg: "sgn S' = 1 \<and> 1 - h \<le> S \<or> sgn S' = - 1 \<and> S \<le> h - 1"
  proof (cases "0 < S'")
    case True
    then have "1 \<le> S'" using s' by linarith
    then have "1 - h \<le> S" using d by linarith
    then show ?thesis using True by simp
  next
    case False
    then have "S' \<le> - 1" using s' by linarith
    then have "S \<le> h - 1" "S' < 0" using d by linarith+
    then show ?thesis by simp
  qed
  have "cos (sgn S' * half_pi) = cos half_pi"
    using sg by auto
  then show "\<bar>cos (sgn S' * half_pi) - c\<bar> \<le> c + 1 / 2 ^ 52"
    using cos_half_pi c0 by linarith
  define t where "t = sin half_pi"
  define kk :: real where "kk = 1 / 2 ^ 52"
  have t: "0 \<le> 1 - t" "1 - t \<le> kk"
    using sin_half_pi by (simp_all add: t_def kk_def)
  have "\<bar>sin (sgn S' * half_pi) - S\<bar> \<le> h + kk"
    using sg
  proof
    assume a: "sgn S' = 1 \<and> 1 - h \<le> S"
    then have "sin (sgn S' * half_pi) = t" by (simp add: t_def)
    moreover have "\<bar>t - S\<bar> \<le> h + kk" using a t s by argo
    ultimately show ?thesis by simp
  next
    assume a: "sgn S' = - 1 \<and> S \<le> h - 1"
    then have "sin (sgn S' * half_pi) = - t" by (simp add: t_def)
    moreover have "\<bar>- t - S\<bar> \<le> h + kk" using a t s by argo
    ultimately show ?thesis by simp
  qed
  then show "\<bar>sin (sgn S' * half_pi) - S\<bar> \<le> h + 1 / 2 ^ 52"
    by (simp add: kk_def)
  have a: "1 - \<bar>S\<bar> \<le> h" "0 \<le> 1 - \<bar>S\<bar>" "1 + \<bar>S\<bar> \<le> 2" "0 \<le> 1 + \<bar>S\<bar>"
    using sg s by (auto simp: abs_le_iff) 
  have "0 \<le> 1 - S\<^sup>2"
    using s by (simp add: abs_square_less_1 less_imp_le)
  then have "c\<^sup>2 = 1 - S\<^sup>2"
    using n by (metis real_sqrt_pow2)
  also have "\<dots> = (1 - \<bar>S\<bar>) * (1 + \<bar>S\<bar>)"
    by (simp add: algebra_simps power2_eq_square)
  also have "\<dots> \<le> h * 2"
    using a by (intro mult_mono) simp_all
  finally show "c\<^sup>2 \<le> 2 * h" by simp
qed

lemma pitch_cases:
  fixes S S' c h :: real
  assumes c0: "0 < c" and c1: "c \<le> 1" and n: "sqrt (1 - S\<^sup>2) = c" and s: "\<bar>S\<bar> < 1"
    and d: "\<bar>S' - S\<bar> \<le> h"
  shows "\<exists>P ep. (if js_ge (Math_abs (Fin S')) (Fin 1)
                  then js_mul round_double (Math_sign (Fin S')) (js_div round_double Math_PI (Fin 2))
                  else Math_asin round_double (Fin S')) = Fin P
               \<and> \<bar>cos P - c\<bar> \<le> 3 * h / c + 1 / 2 ^ 51 + ep
               \<and> \<bar>sin P - S\<bar> \<le> 3 * h / c + 1 / 2 ^ 51 + ep
               \<and> 0 \<le> ep \<and> 24 * ep * c \<le> 48 * h + 24 / 2 ^ 52"
proof (cases "\<bar>S'\<bar> < 1")
  case True
  then have s1: "\<bar>S'\<bar> \<le> 1" by simp
  have h0: "0 \<le> h" using d by linarith
  obtain e where e: "Math_asin round_double (Fin S') = Fin (arcsin S' + e)" "\<bar>e\<bar> \<le> 1 / 2 ^ 51"
    using s1 by (rule Math_asin_error)
  note p = pitch_perturb[OF c0 c1 n s1 d e(2)]
  have b: "\<not> js_ge (Math_abs (Fin S')) (Fin 1)"
    using True by (auto simp: js_ge_def)
  show ?thesis
    using p e(1) b h0 by (intro exI[of _ "arcsin S' + e"] exI[of _ 0]) simp
next
  case False
  then have s1: "1 \<le> \<bar>S'\<bar>" by simp
  have h0: "0 \<le> h" using d by linarith
  note p = clamp_perturb[OF c0 n s s1 d]
  have b: "js_ge (Math_abs (Fin S')) (Fin 1)"
    using s1 by (auto simp: js_ge_def)
  define g where "g = 3 * h / c"
  have "c * h \<le> 1 * h"
    using c1 h0 by (intro mult_right_mono) simp_all
  then have "h \<le> h / c" using c0 by (simp add: field_simps)
  then have gh: "h \<le> g" using c0 h0 by (simp add: g_def field_simps)
  define k :: real where "k = 1 / 2 ^ 51"
  define kk :: real where "kk = 1 / 2 ^ 52"
  define P where "P = sgn S' * half_pi"
  have k0: "0 \<le> k" "0 \<le> kk" by (simp_all add: k_def kk_def)
  have pc: "\<bar>cos P - c\<bar> \<le> c + kk" using p(1) by (simp add: P_def kk_def)
  have ps: "\<bar>sin P - S\<bar> \<le> h + kk" using p(2) by (simp add: P_def kk_def)
  have "kk * c \<le> kk * 1" using c1 k0 by (intro mult_left_mono) simp_all
  moreover have "24 * (c + kk) * c = 24 * c\<^sup>2 + 24 * (kk * c)"
    by (simp add: algebra_simps power2_eq_square)
  ultimately have bud: "24 * (c + kk) * c \<le> 48 * h + 24 * kk"
    using p(3) by linarith
  have "\<bar>cos P - c\<bar> \<le> g + k + (c + kk)" using pc gh k0 h0 by argo
  moreover have "\<bar>sin P - S\<bar> \<le> g + k + (c + kk)" using ps gh k0 c0 by argo
  moreover have "0 \<le> c + kk" using c0 k0 by argo
  moreover have "24 * (c + kk) * c \<le> 48 * h + 24 / 2 ^ 52"
    using bud by (simp add: kk_def)
  moreover have "(if js_ge (Math_abs (Fin S')) (Fin 1)
                  then js_mul round_double (Math_sign (Fin S')) (js_div round_double Math_PI (Fin 2))
                  else Math_asin round_double (Fin S')) = Fin P"
    using b clamped_pitch[OF s1] by (simp add: P_def)
  ultimately show ?thesis
    unfolding g_def k_def by blast
qed

text \<open>
  A quaternion whose squared norm \<open>n\<close> is not exactly 1: the quantities \<open>quatToEuler\<close>
  computes are those of the normalised quaternion scaled by \<open>n\<close>, and the two rotations
  differ by at most \<open>2 * |n - 1|\<close> times the length of the vector.
\<close>

lemma scale_perturb:
  fixes t n v e f :: real
  assumes t: "\<bar>t\<bar> \<le> 1" and n: "\<bar>n - 1\<bar> \<le> f"
  shows "\<bar>v - n * t\<bar> \<le> e \<Longrightarrow> \<bar>v - t\<bar> \<le> e + f"
    and "\<bar>v - (1 - n * (1 - t))\<bar> \<le> e \<Longrightarrow> \<bar>v - t\<bar> \<le> e + 2 * f"
proof -
  have f0: "0 \<le> f" using n by linarith
  have "\<bar>(n - 1) * t\<bar> \<le> f * 1"
    unfolding abs_mult using n t by (intro mult_mono) simp_all
  then have a: "\<bar>n * t - t\<bar> \<le> f" by (simp add: algebra_simps)
  have "\<bar>1 - t\<bar> \<le> 2" using t by linarith
  then have "\<bar>(1 - n) * (1 - t)\<bar> \<le> f * 2"
    unfolding abs_mult using n by (intro mult_mono) simp_all
  then have b: "\<bar>(1 - n * (1 - t)) - t\<bar> \<le> 2 * f" by (simp add: algebra_simps)
  show "\<bar>v - n * t\<bar> \<le> e \<Longrightarrow> \<bar>v - t\<bar> \<le> e + f" using a by argo
  show "\<bar>v - (1 - n * (1 - t))\<bar> \<le> e \<Longrightarrow> \<bar>v - t\<bar> \<le> e + 2 * f" using b by argo
qed

lemma norm3_triangle:
  fixes a b c a' b' c' :: real
  shows "sqrt ((a + a')\<^sup>2 + (b + b')\<^sup>2 + (c + c')\<^sup>2)
           \<le> sqrt (a\<^sup>2 + b\<^sup>2 + c\<^sup>2) + sqrt (a'\<^sup>2 + b'\<^sup>2 + c'\<^sup>2)"
proof -
  define p where "p = sqrt (a\<^sup>2 + b\<^sup>2)"
  define p' where "p' = sqrt (a'\<^sup>2 + b'\<^sup>2)"
  define r where "r = sqrt ((a + a')\<^sup>2 + (b + b')\<^sup>2)"
  have p0: "0 \<le> p" "0 \<le> p'" "0 \<le> r" by (simp_all add: p_def p'_def r_def)
  have r: "r \<le> p + p'"
    unfolding r_def p_def p'_def by (rule real_sqrt_sum_squares_triangle_ineq)
  then have "r\<^sup>2 \<le> (p + p')\<^sup>2"
    using p0 by (intro power_mono) simp_all
  moreover have "r\<^sup>2 = (a + a')\<^sup>2 + (b + b')\<^sup>2" by (simp add: r_def)
  ultimately have "sqrt ((a + a')\<^sup>2 + (b + b')\<^sup>2 + (c + c')\<^sup>2) \<le> sqrt ((p + p')\<^sup>2 + (c + c')\<^sup>2)"
    by (intro real_sqrt_le_mono) simp
  also have "\<dots> \<le> sqrt (p\<^sup>2 + c\<^sup>2) + sqrt (p'\<^sup>2 + c'\<^sup>2)"
    by (rule real_sqrt_sum_squares_triangle_ineq)
  also have "\<dots> = sqrt (a\<^sup>2 + b\<^sup>2 + c\<^sup>2) + sqrt (a'\<^sup>2 + b'\<^sup>2 + c'\<^sup>2)"
    by (simp add: p_def p'_def)
  finally show ?thesis .
qed

lemma dist3_triangle: "dist3 u w \<le> dist3 u v + dist3 v w"
proof -
  obtain a b c where u: "u = (a, b, c)" by (cases u)
  obtain a' b' c' where v: "v = (a', b', c')" by (cases v)
  obtain a'' b'' c'' where w: "w = (a'', b'', c'')" by (cases w)
  show ?thesis
    using norm3_triangle[of "a - a'" "a' - a''" "b - b'" "b' - b''" "c - c'" "c' - c''"]
    by (simp add: dist3_def u v w)
qed

lemma rotate_quat_versor:
  fixes w x y z a b d n :: real
  assumes n0: "0 < n" and n: "n = w\<^sup>2 + x\<^sup>2 + y\<^sup>2 + z\<^sup>2"
  shows "dist3 (rotate_quat (w / sqrt n, x / sqrt n, y / sqrt n, z / sqrt n) (a, b, d))
               (rotate_quat (w, x, y, z) (a, b, d))
           \<le> 2 * \<bar>n - 1\<bar> * sqrt (a\<^sup>2 + b\<^sup>2 + d\<^sup>2)"
proof -
  define K1 where "K1 = - (2 * (y\<^sup>2 + z\<^sup>2)) * a + 2 * (x * y - w * z) * b + 2 * (x * z + w * y) * d"
  define K2 where "K2 = 2 * (x * y + w * z) * a - 2 * (x\<^sup>2 + z\<^sup>2) * b + 2 * (y * z - w * x) * d"
  define K3 where "K3 = 2 * (x * z - w * y) * a + 2 * (y * z + w * x) * b - 2 * (x\<^sup>2 + y\<^sup>2) * d"
  define Q where "Q = K1\<^sup>2 + K2\<^sup>2 + K3\<^sup>2"
  define N2 where "N2 = a\<^sup>2 + b\<^sup>2 + d\<^sup>2"
  define t where "t = (1 - n) / n"
  define R where "R = (K1 + 2 * n * a)\<^sup>2 + (K2 + 2 * n * b)\<^sup>2 + (K3 + 2 * n * d)\<^sup>2"
  have id: "Q + R = 4 * n\<^sup>2 * N2"
    unfolding Q_def R_def N2_def K1_def K2_def K3_def n by algebra
  have "0 \<le> R" by (simp add: R_def)
  then have "Q \<le> 4 * n\<^sup>2 * N2" using id by linarith
  then have Q: "Q \<le> (2 * n)\<^sup>2 * N2" by (simp add: power_mult_distrib)
  have Q0: "0 \<le> Q" "0 \<le> N2" by (simp_all add: Q_def N2_def)
  have "sqrt Q \<le> sqrt ((2 * n)\<^sup>2 * N2)" using Q by (rule real_sqrt_le_mono)
  also have "\<dots> = 2 * n * sqrt N2" using n0 by (simp add: real_sqrt_mult)
  finally have sQ: "sqrt Q \<le> 2 * n * sqrt N2" .
  have sq: "\<And>p. (p / sqrt n)\<^sup>2 = p\<^sup>2 / n" "\<And>p q. p / sqrt n * (q / sqrt n) = p * q / n"
    using n0 by (simp_all add: power_divide)
  have r1: "rotate_quat (w / sqrt n, x / sqrt n, y / sqrt n, z / sqrt n) (a, b, d)
              = (a + K1 / n, b + K2 / n, d + K3 / n)"
    unfolding rotate_quat_def prod.case sq
    using n0 by (simp add: K1_def K2_def K3_def field_simps)
  have r2: "rotate_quat (w, x, y, z) (a, b, d) = (a + K1, b + K2, d + K3)"
    by (simp add: rotate_quat_def K1_def K2_def K3_def algebra_simps)
  have k: "\<And>K. a' + K / n - (a' + K) = t * K" for a' :: real
    using n0 by (simp add: t_def field_simps)
  have "dist3 (rotate_quat (w / sqrt n, x / sqrt n, y / sqrt n, z / sqrt n) (a, b, d))
              (rotate_quat (w, x, y, z) (a, b, d))
          = sqrt ((t * K1)\<^sup>2 + (t * K2)\<^sup>2 + (t * K3)\<^sup>2)"
    unfolding r1 r2 dist3_def by (simp only: prod.case k)
  also have "(t * K1)\<^sup>2 + (t * K2)\<^sup>2 + (t * K3)\<^sup>2 = t\<^sup>2 * Q"
    by (simp add: Q_def power_mult_distrib algebra_simps)
  also have "sqrt (t\<^sup>2 * Q) = \<bar>t\<bar> * sqrt Q" by (simp add: real_sqrt_mult)
  also have "\<dots> \<le> \<bar>t\<bar> * (2 * n * sqrt N2)"
    using sQ by (intro mult_left_mono) simp_all
  also have "\<dots> = 2 * \<bar>n - 1\<bar> * sqrt N2"
    using n0 by (simp add: t_def abs_divide abs_minus_commute)
  finally show ?thesis by (simp add: N2_def)
qed

text \<open>
  In exact arithmetic the round trip is exact away from the boundary.
\<close>

lemma quatToEuler_round_trip_exact:
  assumes u: "unit_quat (w, x, y, z)" and ng: "\<bar>2 * (w * y - z * x)\<bar> < 1"
  shows "round_trip_error exact (w, x, y, z) v = Some 0"
proof -
  have "quatToEuler exact (quat_of (w, x, y, z)) =
          (Fin (atan2 (2 * (w * x + y * z)) (1 - 2 * (x * x + y * y))),
           Fin (arcsin (2 * (w * y - z * x))),
           Fin (atan2 (2 * (w * z + x * y)) (1 - 2 * (y * y + z * z))))"
    using ng by (rule quatToEuler_exact)
  then show ?thesis
    using exact_angles(11)[OF u ng, of v]
    by (simp add: round_trip_error_def dist3_def split: prod.splits)
qed

text \<open>
  C4, as amended.  For every quaternion that is unit, exactly or up to a defect of at most
  one half in its squared norm (the components are binary64 values), and that is not at
  the gimbal-lock boundary (the pitch sine has magnitude below 1), the three angles that
  \<open>quatToEuler\<close> computes in binary64 are finite, and the rotation rebuilt from them
  moves every test vector \<open>v\<close> to within \<open>(2 ^ -41 + 242 * defect) * |v| / cos pitch\<close> of
  where the quaternion moves it, where \<open>cos pitch\<close> is \<open>sqrt (1 - sinp ^ 2)\<close>.  For an
  exactly unit quaternion the tolerance is \<open>2 ^ -41 * |v| / cos pitch\<close>, a few units in
  the last place, which grows as the pitch approaches 90 degrees.
\<close>

theorem quatToEuler_round_trip:
  assumes nu: "unit_defect (w, x, y, z) \<le> 1 / 2"
    and ng: "\<bar>pitch_sine (w, x, y, z)\<bar> < 1"
  shows "\<exists>e. round_trip_error round_double (w, x, y, z) (a, b, d) = Some e
             \<and> e \<le> (1 / 2 ^ 41 + 242 * unit_defect (w, x, y, z)) * sqrt (a\<^sup>2 + b\<^sup>2 + d\<^sup>2)
                      / sqrt (1 - (pitch_sine (w, x, y, z))\<^sup>2)"
proof -
  define n where "n = w\<^sup>2 + x\<^sup>2 + y\<^sup>2 + z\<^sup>2"
  define f where "f = \<bar>n - 1\<bar>"
  define wh where "wh = w / sqrt n"
  define xh where "xh = x / sqrt n"
  define yh where "yh = y / sqrt n"
  define zh where "zh = z / sqrt n"
  define S where "S = 2 * (wh * yh - zh * xh)"
  define A where "A = 2 * (wh * xh + yh * zh)"
  define B where "B = 1 - 2 * (xh * xh + yh * yh)"
  define C where "C = 2 * (wh * zh + xh * yh)"
  define D where "D = 1 - 2 * (yh * yh + zh * zh)"
  define c where "c = sqrt (1 - (2 * (wh * yh - zh * xh))\<^sup>2)"
  define h :: real where "h = 1 / 2 ^ 48 + 2 * f"
  define k :: real where "k = 1 / 2 ^ 51"
  define L where "L = \<bar>a\<bar> + \<bar>b\<bar> + \<bar>d\<bar>"
  define N where "N = sqrt (a\<^sup>2 + b\<^sup>2 + d\<^sup>2)"
  have fd: "unit_defect (w, x, y, z) = f"
    by (simp add: unit_defect_def quat_norm2_def f_def n_def)
  have f1: "f \<le> 1 / 2" and f0: "0 \<le> f" using nu by (simp_all add: fd f_def)
  have nb: "1 / 2 \<le> n" "n \<le> 3 / 2" using f1 unfolding f_def by linarith+
  then have n0: "0 < n" by linarith
  have na: "\<bar>n\<bar> = n" using n0 by simp
  have hp: "\<And>p q. p / sqrt n * (q / sqrt n) = p * q / n"
    using n0 by simp
  have "wh\<^sup>2 + xh\<^sup>2 + yh\<^sup>2 + zh\<^sup>2 = (w\<^sup>2 + x\<^sup>2 + y\<^sup>2 + z\<^sup>2) / n"
    using n0 by (simp add: wh_def xh_def yh_def zh_def power_divide add_divide_distrib)
  then have uh: "unit_quat (wh, xh, yh, zh)"
    using n0 by (simp add: unit_quat_def n_def[symmetric])
  have Sp: "S = pitch_sine (w, x, y, z)"
    by (simp add: S_def wh_def xh_def yh_def zh_def hp na pitch_sine_def quat_norm2_def
        n_def[symmetric] diff_divide_distrib)
  have ngh: "\<bar>2 * (wh * yh - zh * xh)\<bar> < 1"
    using ng by (simp add: Sp[symmetric] S_def)
  note ea = exact_angles(1-10)[OF uh ngh, folded S_def A_def B_def C_def D_def c_def]
  note ev = exact_angles(11)[OF uh ngh, of "(a, b, d)", folded S_def A_def B_def C_def D_def c_def]
  have c0: "0 < c" and c1: "c \<le> 1" by (rule ea(1), rule ea(2))
  have cS: "sqrt (1 - S\<^sup>2) = c" by (simp add: c_def S_def)
  have Sl: "\<bar>S\<bar> < 1" using ngh by (simp add: S_def)
  have Al: "\<bar>A\<bar> \<le> 1" "\<bar>B\<bar> \<le> 1"
    using abs_le_hypot[where A = A and B = B] ea(3) c1 by linarith+
  have Cl: "\<bar>C\<bar> \<le> 1" "\<bar>D\<bar> \<le> 1"
    using abs_le_hypot[where A = C and B = D] ea(4) c1 by linarith+
  have An: "2 * (w * x + y * z) = n * A"
    and Bn: "1 - 2 * (x * x + y * y) = 1 - n * (1 - B)"
    and Sn: "2 * (w * y - z * x) = n * S"
    and Cn: "2 * (w * z + x * y) = n * C"
    and Dn: "1 - 2 * (y * y + z * z) = 1 - n * (1 - D)"
    using n0 by (simp_all add: A_def B_def C_def D_def S_def wh_def xh_def yh_def zh_def hp na
        algebra_simps add_divide_distrib diff_divide_distrib)
  have "w\<^sup>2 + x\<^sup>2 + y\<^sup>2 + z\<^sup>2 \<le> 3 / 2" using nb(2) by (simp add: n_def)
  note q1 = quat_products[OF this]
  obtain A' where A': "js_mul round_double (Fin 2)
       (js_add round_double (js_mul round_double (Fin w) (Fin x)) (js_mul round_double (Fin y) (Fin z)))
     = Fin A'" "\<bar>A' - 2 * (w * x + y * z)\<bar> \<le> 7 / 2 ^ 51"
    using two_prod_sum_error[OF q1(1) q1(2)] by blast
  obtain B' where B': "js_sub round_double (Fin 1)
       (js_mul round_double (Fin 2)
          (js_add round_double (js_mul round_double (Fin x) (Fin x)) (js_mul round_double (Fin y) (Fin y))))
     = Fin B'" "\<bar>B' - (1 - 2 * (x * x + y * y))\<bar> \<le> 8 / 2 ^ 51"
    using one_minus_error[OF q1(3) q1(4)] by blast
  obtain S' where S': "js_mul round_double (Fin 2)
       (js_sub round_double (js_mul round_double (Fin w) (Fin y)) (js_mul round_double (Fin z) (Fin x)))
     = Fin S'" "\<bar>S' - 2 * (w * y - z * x)\<bar> \<le> 7 / 2 ^ 51"
    using two_prod_diff_error[OF q1(5) q1(6)] by blast
  obtain C' where C': "js_mul round_double (Fin 2)
       (js_add round_double (js_mul round_double (Fin w) (Fin z)) (js_mul round_double (Fin x) (Fin y)))
     = Fin C'" "\<bar>C' - 2 * (w * z + x * y)\<bar> \<le> 7 / 2 ^ 51"
    using two_prod_sum_error[OF q1(7) q1(8)] by blast
  obtain D' where D': "js_sub round_double (Fin 1)
       (js_mul round_double (Fin 2)
          (js_add round_double (js_mul round_double (Fin y) (Fin y)) (js_mul round_double (Fin z) (Fin z))))
     = Fin D'" "\<bar>D' - (1 - 2 * (y * y + z * z))\<bar> \<le> 8 / 2 ^ 51"
    using one_minus_error[OF q1(4) q1(9)] by blast
  have nf: "\<bar>n - 1\<bar> \<le> f" by (simp add: f_def)
  have w1: "\<And>t :: real. t \<le> 7 / 2 ^ 51 + f \<Longrightarrow> t \<le> h"
    and w2: "\<And>t :: real. t \<le> 8 / 2 ^ 51 + 2 * f \<Longrightarrow> t \<le> h"
    using f0 by (simp_all add: h_def)
  have dA: "\<bar>A' - A\<bar> \<le> h"
    using scale_perturb(1)[OF Al(1) nf A'(2)[unfolded An]] by (rule w1)
  have dB: "\<bar>B' - B\<bar> \<le> h"
    using scale_perturb(2)[OF Al(2) nf B'(2)[unfolded Bn]] by (rule w2)
  have dC: "\<bar>C' - C\<bar> \<le> h"
    using scale_perturb(1)[OF Cl(1) nf C'(2)[unfolded Cn]] by (rule w1)
  have dD: "\<bar>D' - D\<bar> \<le> h"
    using scale_perturb(2)[OF Cl(2) nf D'(2)[unfolded Dn]] by (rule w2)
  have Sle: "\<bar>S\<bar> \<le> 1" using Sl by simp
  have dS: "\<bar>S' - S\<bar> \<le> h"
    using scale_perturb(1)[OF Sle nf S'(2)[unfolded Sn]] by (rule w1)
  have h0: "0 \<le> h" using f0 by (simp add: h_def)
  have qs: "quat_sinp round_double (Num (Fin w), Num (Fin x), Num (Fin y), Num (Fin z)) = Fin S'"
    by (simp add: quat_sinp_def S'(1)[simplified])
  obtain er where er: "Math_atan2 round_double (Fin A') (Fin B') = Fin (atan2 A' B' + er)" "\<bar>er\<bar> \<le> k"
    unfolding k_def by (rule Math_atan2_error)
  obtain ey where ey: "Math_atan2 round_double (Fin C') (Fin D') = Fin (atan2 C' D' + ey)" "\<bar>ey\<bar> \<le> k"
    unfolding k_def by (rule Math_atan2_error)
  obtain P ep where P: "(if js_ge (Math_abs (Fin S')) (Fin 1)
                  then js_mul round_double (Math_sign (Fin S')) (js_div round_double Math_PI (Fin 2))
                  else Math_asin round_double (Fin S')) = Fin P"
    and Pc: "\<bar>cos P - c\<bar> \<le> 3 * h / c + k + ep"
    and Ps: "\<bar>sin P - S\<bar> \<le> 3 * h / c + k + ep"
    and ep0: "0 \<le> ep" and epc: "24 * ep * c \<le> 48 * h + 24 / 2 ^ 52"
    using pitch_cases[OF c0 c1 cS Sl dS] unfolding k_def by blast
  have eul: "quatToEuler round_double (quat_of (w, x, y, z)) =
               (Fin (atan2 A' B' + er), Fin P, Fin (atan2 C' D' + ey))"
    using er(1) ey(1) P
    by (simp add: quatToEuler_def quat_of_def Let_def A'(1)[simplified] B'(1)[simplified]
          C'(1)[simplified] D'(1)[simplified] qs)
  have rte: "round_trip_error round_double (w, x, y, z) (a, b, d) =
               Some (dist3 (rotate_euler (atan2 A' B' + er, P, atan2 C' D' + ey) (a, b, d))
                       (rotate_quat (w, x, y, z) (a, b, d)))"
    by (simp add: round_trip_error_def eul)
  have "\<exists>e. \<bar>cos (atan2 A' B' + er) - cos (atan2 A B)\<bar> \<le> e
            \<and> \<bar>sin (atan2 A' B' + er) - sin (atan2 A B)\<bar> \<le> e
            \<and> \<bar>cos P - cos (arcsin S)\<bar> \<le> e
            \<and> \<bar>sin P - sin (arcsin S)\<bar> \<le> e
            \<and> \<bar>cos (atan2 C' D' + ey) - cos (atan2 C D)\<bar> \<le> e
            \<and> \<bar>sin (atan2 C' D' + ey) - sin (atan2 C D)\<bar> \<le> e
            \<and> 24 * e * c \<le> 1 / 2 ^ 41 + 240 * f"
  proof (cases "c \<le> 2 * h")
    case True
    have "24 * 2 * c \<le> 24 * 2 * (2 * h)"
      using True by (intro mult_left_mono) simp_all
    also have "\<dots> \<le> 1 / 2 ^ 41 + 240 * f" using f0 by (simp add: h_def)
    finally have "24 * 2 * c \<le> 1 / 2 ^ 41 + 240 * f" .
    then show ?thesis
      using trig_diff_le_2 by (intro exI[of _ 2]) blast
  next
    case False
    then have small: "2 * h < c" by simp
    define g where "g = 3 * h / c + k"
    note r = angle_perturb[OF c0 ea(3) dA dB small er(2), folded g_def]
    note yw = angle_perturb[OF c0 ea(4) dC dD small ey(2), folded g_def]
    note p = Pc[folded g_def] Ps[folded g_def]
    have "24 * g * c = 72 * h + 24 * k * c"
      using c0 by (simp add: g_def field_simps)
    also have "\<dots> \<le> 72 * h + 24 * k * 1"
      using c1 by (intro add_left_mono mult_left_mono) (simp_all add: k_def)
    finally have "24 * g * c \<le> 72 * h + 24 * k" by simp
    moreover have "24 * (g + ep) * c = 24 * g * c + 24 * ep * c"
      by (simp add: algebra_simps)
    ultimately have "24 * (g + ep) * c \<le> 120 * h + 24 * k + 24 / 2 ^ 52"
      using epc by linarith
    also have "\<dots> \<le> 1 / 2 ^ 41 + 240 * f" by (simp add: h_def k_def)
    finally have bud: "24 * (g + ep) * c \<le> 1 / 2 ^ 41 + 240 * f" .
    have w: "\<And>t :: real. t \<le> g \<Longrightarrow> t \<le> g + ep" using ep0 by linarith
    show ?thesis
      using r[THEN w] yw[THEN w] p bud unfolding ea(5-10) by (intro exI[of _ "g + ep"]) blast
  qed
  then obtain e where e:
    "\<bar>cos (atan2 A' B' + er) - cos (atan2 A B)\<bar> \<le> e"
    "\<bar>sin (atan2 A' B' + er) - sin (atan2 A B)\<bar> \<le> e"
    "\<bar>cos P - cos (arcsin S)\<bar> \<le> e"
    "\<bar>sin P - sin (arcsin S)\<bar> \<le> e"
    "\<bar>cos (atan2 C' D' + ey) - cos (atan2 C D)\<bar> \<le> e"
    "\<bar>sin (atan2 C' D' + ey) - sin (atan2 C D)\<bar> \<le> e"
    and ec: "24 * e * c \<le> 1 / 2 ^ 41 + 240 * f"
    by blast
  have e0: "0 \<le> e" using e(1) by linarith
  have N0: "0 \<le> N" by (simp add: N_def)
  have LN: "L \<le> 2 * N" unfolding L_def N_def by (rule sum_abs_le_2_norm)
  have "dist3 (rotate_euler (atan2 A' B' + er, P, atan2 C' D' + ey) (a, b, d))
              (rotate_euler (atan2 A B, arcsin S, atan2 C D) (a, b, d)) \<le> 12 * e * L"
    unfolding L_def using e by (rule rotate_euler_perturb)
  also have "\<dots> \<le> 12 * e * (2 * N)"
    using LN e0 by (intro mult_left_mono) simp_all
  also have "\<dots> = (24 * e * c) * N / c" using c0 by simp
  also have "\<dots> \<le> (1 / 2 ^ 41 + 240 * f) * N / c"
    using ec N0 c0 by (intro divide_right_mono mult_right_mono) simp_all
  finally have d1: "dist3 (rotate_euler (atan2 A' B' + er, P, atan2 C' D' + ey) (a, b, d))
                      (rotate_quat (wh, xh, yh, zh) (a, b, d)) \<le> (1 / 2 ^ 41 + 240 * f) * N / c"
    by (simp only: ev)
  have "dist3 (rotate_quat (wh, xh, yh, zh) (a, b, d)) (rotate_quat (w, x, y, z) (a, b, d))
          \<le> 2 * f * N"
    unfolding wh_def xh_def yh_def zh_def f_def N_def using n0 n_def by (rule rotate_quat_versor)
  also have "\<dots> = (2 * f * N) * c / c" using c0 by simp
  also have "\<dots> \<le> (2 * f * N) * 1 / c"
    using c0 c1 f0 N0 by (intro divide_right_mono mult_left_mono) simp_all
  finally have d2: "dist3 (rotate_quat (wh, xh, yh, zh) (a, b, d)) (rotate_quat (w, x, y, z) (a, b, d))
                      \<le> (2 * f) * N / c" by simp
  have "dist3 (rotate_euler (atan2 A' B' + er, P, atan2 C' D' + ey) (a, b, d))
              (rotate_quat (w, x, y, z) (a, b, d))
          \<le> (1 / 2 ^ 41 + 240 * f) * N / c + (2 * f) * N / c"
    using dist3_triangle d1 d2 by (rule order_trans[OF _ add_mono])
  also have "\<dots> = (1 / 2 ^ 41 + 242 * f) * N / c"
    by (simp add: algebra_simps add_divide_distrib)
  finally show ?thesis
    unfolding rte fd N_def c_def Sp[unfolded S_def, symmetric] by blast
qed

theorem quatToEuler_round_trip_witness:
  "unit_defect (1, 1 / 2 ^ 30, 1 / 2 ^ 30, 0) \<le> 1 / 2
   \<and> \<bar>pitch_sine (1, 1 / 2 ^ 30, 1 / 2 ^ 30, 0)\<bar> < 1
   \<and> (\<exists>e. round_trip_error round_double (1, 1 / 2 ^ 30, 1 / 2 ^ 30, 0) (1, 2, 3) = Some e
            \<and> e \<le> (1 / 2 ^ 41 + 242 * unit_defect (1, 1 / 2 ^ 30, 1 / 2 ^ 30, 0))
                     * sqrt (1\<^sup>2 + 2\<^sup>2 + 3\<^sup>2)
                     / sqrt (1 - (pitch_sine (1, 1 / 2 ^ 30, 1 / 2 ^ 30, 0))\<^sup>2))"
proof -
  have u: "unit_defect (1, 1 / 2 ^ 30, 1 / 2 ^ 30, 0) \<le> 1 / 2"
    by (simp add: unit_defect_def quat_norm2_def power_divide)
  have n: "\<bar>pitch_sine (1, 1 / 2 ^ 30, 1 / 2 ^ 30, 0)\<bar> < 1"
    by (simp add: pitch_sine_def quat_norm2_def power_divide)
  show ?thesis
    using u n quatToEuler_round_trip[OF u n, of 1 2 3] by blast
qed

lemma atan2_0_0 [simp]: "atan2 0 0 = 0"
  by (simp add: atan2_def)

lemma quatToEuler_q_gimbal:
  "quatToEuler round_double (quat_of q_gimbal) = (Fin 0, Fin (884279719003555 / 2 ^ 49), Fin 0)"
  using quat_sinp_q_gimbal
  by (simp add: quatToEuler_def Let_def q_gimbal_def quat_of_def js_sub_def js_ge_def
      round_double_quarter round_double_half round_double_neg_quarter
      half_pi_double half_pi_double_pos)

text \<open>
  At the gimbal-lock boundary the round trip fails, also in binary64, where every
  operation on this input is exact: for the unit quaternion \<open>(1/2, -1/2, 1/2, 1/2)\<close>
  (pitch 90 degrees, yaw 90 degrees) both \<open>atan2\<close> calls see \<open>(0, 0)\<close>, so roll and
  yaw come out 0 and the rebuilt rotation leaves the test vector \<open>(0, 1, 0)\<close> in place,
  while the quaternion takes it to \<open>(-1, 0, 0)\<close>.
\<close>

theorem quatToEuler_round_trip_counterexample:
  "unit_quat q_gimbal \<and> round_trip_error round_double q_gimbal (0, 1, 0) = Some (sqrt 2)"
proof -
  have "rotate_quat q_gimbal (0, 1, 0) = (- 1, 0, 0)"
    by (simp add: rotate_quat_def q_gimbal_def power2_eq_square)
  moreover have "rotate_euler (0, 884279719003555 / 2 ^ 49, 0) (0, 1, 0) = (0, 1, 0)"
    by (simp add: rotate_euler_def rot_x_def rot_y_def rot_z_def)
  moreover have "unit_quat q_gimbal"
    by (simp add: unit_quat_def q_gimbal_def power2_eq_square)
  ultimately show ?thesis
    by (simp add: round_trip_error_def quatToEuler_q_gimbal dist3_def)
qed

section \<open>Time-series renderer: the degenerate range\<close>

lemma extent_loop_ordered:
  assumes "lo \<noteq> NaN" and "hi \<noteq> NaN" and "(lo = PInf \<and> hi = NInf) \<or> \<not> js_lt hi lo"
    and "extent_loop arr (lo, hi) = (Fin l, Fin h)"
  shows "l \<le> h"
  using assms
proof (induction arr arbitrary: lo hi)
  case Nil
  then show ?case by auto
next
  case (Cons v vs)
  define n where "n = toNumber v"
  define lo' where "lo' = (if js_lt n lo then n else lo)"
  define hi' where "hi' = (if js_gt n hi then n else hi)"
  have r: "extent_loop vs (lo', hi') = (Fin l, Fin h)"
    using Cons.prems(4) unfolding lo'_def hi'_def n_def by (simp only: extent_loop.simps Let_def)
  have a1: "lo' \<noteq> NaN"
    using Cons.prems(1) by (cases n; cases lo) (auto simp: lo'_def)
  have a2: "hi' \<noteq> NaN"
    using Cons.prems(2) by (cases n; cases hi) (auto simp: hi'_def js_gt_def)
  have b: "(lo' = PInf \<and> hi' = NInf) \<or> \<not> js_lt hi' lo'"
    using Cons.prems(1,2,3)
    by (cases n; cases lo; cases hi; simp add: lo'_def hi'_def js_gt_def)
  show ?case by (rule Cons.IH[OF a1 a2 b r])
qed

lemma proper_rangeI:
  "p = (Fin a, Fin b) \<Longrightarrow> a < b \<Longrightarrow> \<exists>ymin ymax. p = (Fin ymin, Fin ymax) \<and> ymin < ymax"
  by (intro exI[of _ a] exI[of _ b] conjI)

text \<open>
  In exact arithmetic the range is proper for every input: the scan keeps
  \<open>lo \<le> hi\<close> once a value has been seen, and each of the three branches of
  \<open>extent\<close> is then widened strictly by \<open>pad\<close>.
\<close>

lemma pad_extent_exact:
  "\<exists>ymin ymax. pad exact (extent exact arr) (exact (5 / 100)) = (Fin ymin, Fin ymax) \<and> ymin < ymax"
proof -
  obtain lo hi where e: "extent_loop arr (PInf, NInf) = (lo, hi)" by (cases "extent_loop arr (PInf, NInf)")
  show ?thesis
  proof (cases "isFinite lo \<and> isFinite hi")
    case False
    then have "pad exact (extent exact arr) (exact (5 / 100)) = (Fin (- (1 / 20)), Fin (21 / 20))"
      by (auto simp: extent_def e pad_def exact_def js_sub_def Let_def)
    then show ?thesis by (rule proper_rangeI) simp
  next
    case True
    then obtain l h where lh: "lo = Fin l" "hi = Fin h" by (cases lo; cases hi) auto
    have le: "l \<le> h"
      by (rule extent_loop_ordered[of PInf NInf arr]) (simp_all add: e lh)
    show ?thesis
    proof (cases "l = h")
      case True
      then have "pad exact (extent exact arr) (exact (5 / 100)) = (Fin (l - 1 - 1 / 10), Fin (l + 1 + 1 / 10))"
        by (simp add: extent_def e lh pad_def exact_def js_sub_def Let_def)
      then show ?thesis by (rule proper_rangeI) simp
    next
      case False
      then have "pad exact (extent exact arr) (exact (5 / 100)) = (Fin (l - 1 / 20 * (h - l)), Fin (h + 1 / 20 * (h - l)))"
        by (simp add: extent_def e lh pad_def exact_def js_sub_def Let_def)
      moreover have "l < h" using le False by simp
      then have "0 < 1 / 20 * (h - l)" by simp
      with \<open>l < h\<close> have "l - 1 / 20 * (h - l) < h + 1 / 20 * (h - l)" by linarith
      ultimately show ?thesis by (rule proper_rangeI)
    qed
  qed
qed

text \<open>In binary64 the widening by one unit can be absorbed.\<close>

lemma round_double_1e17_minus_1: "round_double 99999999999999999 = Fin 100000000000000000"
  by (rule round_double_normal[where e = 56 and n = "6250000000000000", THEN trans])
    (simp_all add: rd_eval)

lemma round_double_1e17_plus_1: "round_double 100000000000000001 = Fin 100000000000000000"
  by (rule round_double_normal[where e = 56 and n = "6250000000000000", THEN trans])
    (simp_all add: rd_eval)

lemma round_double_1e17: "round_double 100000000000000000 = Fin 100000000000000000"
  using round_double_representable[of 6250000000000000 4] by (simp add: power_int_def)

lemma round_double_0_05: "round_double (1 / 20) = Fin (3602879701896397 / 2 ^ 56)"
  by (rule round_double_normal[where e = "- 5" and n = "7205759403792794", THEN trans])
    (simp_all add: rd_eval)

lemma extent_huge:
  "extent round_double (flat_series 2 huge_series) = (Fin (10 ^ 17), Fin (10 ^ 17))"
  by (simp add: extent_def flat_series_def huge_series_def js_gt_def js_sub_def Let_def
      numeral_2_eq_2 upt_rec round_double_1e17_minus_1 round_double_1e17_plus_1)

text \<open>
  C10.  The range is not always proper.  For a series whose every component is
  \<open>1e17\<close> the bounds are equal, \<open>extent\<close> widens them by one unit, and in binary64
  both \<open>1e17 - 1\<close> and \<open>1e17 + 1\<close> round back to \<open>1e17\<close> (the spacing of
  doubles there is 16).  The padding is then zero, \<open>ymin = ymax\<close>, the divisor
  \<open>ymax - ymin\<close> of the pixel mapping is zero and the mapped value is NaN.
\<close>

theorem drawLines_scale_degenerate:
  "drawLines_scale round_double 2 huge_series = Inr (Fin (10 ^ 17), Fin (10 ^ 17))
   \<and> js_sub round_double (Fin (10 ^ 17)) (Fin (10 ^ 17)) = Fin 0
   \<and> scale_y round_double (Fin (10 ^ 17), Fin (10 ^ 17)) (Fin 8) (Fin 192) (Fin (10 ^ 17)) = NaN"
proof -
  have "length huge_series = 2" by (simp add: huge_series_def)
  then show ?thesis
    by (simp add: drawLines_scale_def extent_huge pad_def js_sub_def scale_y_def round_double_0_05
      round_double_1e17 Let_def)
qed

section \<open>Trajectory loader: column lookup\<close>

lemma fst_zip_upt: "fst ` set (zip hs [0..<length hs]) = set hs"
proof -
  have "map fst (zip hs [0..<length hs]) = hs" by simp
  then show ?thesis by (metis set_map)
qed

lemma header_index_None: "name \<notin> set hs \<Longrightarrow> header_index hs name = None"
  by (simp add: header_index_def map_of_eq_None_iff fst_zip_upt)

lemma header_index_Some:
  assumes "name \<in> set hs"
  shows "\<exists>j < length hs. header_index hs name = Some j"
proof -
  have "name \<in> fst ` set (rev (zip hs [0..<length hs]))"
    using assms by (simp add: fst_zip_upt)
  then obtain j where j: "header_index hs name = Some j"
    unfolding header_index_def by (metis map_of_eq_None_iff not_Some_eq)
  then have "(name, j) \<in> set (zip hs [0..<length hs])"
    unfolding header_index_def by (metis map_of_SomeD set_rev)
  then have "j < length hs"
    by (metis atLeastLessThan_iff in_set_zipE set_upt)
  with j show ?thesis by blast
qed

lemma loadCSV_lengths:
  "length (traj_pos (loadCSV num text)) = length (traj_t (loadCSV num text))"
  "length (traj_vel (loadCSV num text)) = length (traj_t (loadCSV num text))"
  "length (traj_quat (loadCSV num text)) = length (traj_t (loadCSV num text))"
  "length (traj_omega (loadCSV num text)) = length (traj_t (loadCSV num text))"
  "length (traj_fuel (loadCSV num text)) = length (traj_t (loadCSV num text))"
  "length (traj_t (loadCSV num text)) = length (csv_rows num text)"
  by (simp_all add: loadCSV_def Let_def)


lemma cell_absent: "name \<notin> set hs \<Longrightarrow> cell r (header_index hs name) = Undefined"
  by (simp add: header_index_None cell_def)

lemma cell_present:
  assumes "name \<in> set hs" and "length hs \<le> length r"
  shows "is_num (cell r (header_index hs name))"
proof -
  obtain j where "j < length hs" and "header_index hs name = Some j"
    using header_index_Some[OF assms(1)] by blast
  then show ?thesis using assms(2) by (simp add: cell_def is_num_def)
qed

lemma names_cases:
  assumes "name \<in> set required_columns \<or> name \<in> set rate_columns"
  shows "name \<in> {''t'', ''x'', ''y'', ''z'', ''vx'', ''vy'', ''vz'', ''qw'', ''qx'', ''qy'', ''qz'',
                  ''omx'', ''omy'', ''omz''}"
  using assms by (simp add: required_columns_def rate_columns_def)

lemma map_rows_nth: "map (\<lambda>i. f (rows ! i)) [0..<length rows] = map f rows"
  by (rule nth_equalityI) simp_all

lemma elem_at_all: "length col = n \<Longrightarrow> map (elem_at col) [0..<n] = col"
  by (rule nth_equalityI) (simp_all add: elem_at_def)

lemma channel_loadCSV:
  assumes "name \<in> set required_columns \<or> name \<in> set rate_columns"
  shows "channel name (loadCSV num text) =
           map (\<lambda>r. cell r (header_index (csv_headers text) name)) (csv_rows num text)"
proof -
  have t: "traj_t (loadCSV num text) =
             map (\<lambda>r. cell r (header_index (csv_headers text) ''t'')) (csv_rows num text)"
    by (simp add: loadCSV_def Let_def)
  have p: "traj_pos (loadCSV num text) =
             map (\<lambda>r. (cell r (header_index (csv_headers text) ''x''),
                        cell r (header_index (csv_headers text) ''y''),
                        cell r (header_index (csv_headers text) ''z''))) (csv_rows num text)"
    using map_rows_nth[of "\<lambda>r. (cell r (header_index (csv_headers text) ''x''),
                        cell r (header_index (csv_headers text) ''y''),
                        cell r (header_index (csv_headers text) ''z''))" "csv_rows num text"]
    by (simp add: loadCSV_def Let_def)
  have v: "traj_vel (loadCSV num text) =
             map (\<lambda>r. (cell r (header_index (csv_headers text) ''vx''),
                        cell r (header_index (csv_headers text) ''vy''),
                        cell r (header_index (csv_headers text) ''vz''))) (csv_rows num text)"
    using map_rows_nth[of "\<lambda>r. (cell r (header_index (csv_headers text) ''vx''),
                        cell r (header_index (csv_headers text) ''vy''),
                        cell r (header_index (csv_headers text) ''vz''))" "csv_rows num text"]
    by (simp add: loadCSV_def Let_def)
  have q: "traj_quat (loadCSV num text) =
             map (\<lambda>r. (cell r (header_index (csv_headers text) ''qw''),
                        cell r (header_index (csv_headers text) ''qx''),
                        cell r (header_index (csv_headers text) ''qy''),
                        cell r (header_index (csv_headers text) ''qz''))) (csv_rows num text)"
    using map_rows_nth[of "\<lambda>r. (cell r (header_index (csv_headers text) ''qw''),
                        cell r (header_index (csv_headers text) ''qx''),
                        cell r (header_index (csv_headers text) ''qy''),
                        cell r (header_index (csv_headers text) ''qz''))" "csv_rows num text"]
    by (simp add: loadCSV_def Let_def)
  have om: "traj_omega (loadCSV num text) =
             map (\<lambda>r. (cell r (header_index (csv_headers text) ''omx''),
                        cell r (header_index (csv_headers text) ''omy''),
                        cell r (header_index (csv_headers text) ''omz''))) (csv_rows num text)"
    using map_rows_nth[of "\<lambda>r. (cell r (header_index (csv_headers text) ''omx''),
                        cell r (header_index (csv_headers text) ''omy''),
                        cell r (header_index (csv_headers text) ''omz''))" "csv_rows num text"]
    by (simp add: loadCSV_def Let_def)
  show ?thesis
    using names_cases[OF assms]
    by (elim insertE emptyE; simp add: channel_def t p v q om comp_def)
qed


lemma channel_absent_loadCSV:
  assumes "name \<in> set required_columns \<or> name \<in> set rate_columns"
    and "name \<notin> set (csv_headers text)"
  shows "channel name (loadCSV num text) = replicate (length (traj_t (loadCSV num text))) Undefined"
  unfolding channel_loadCSV[OF assms(1)]
  by (simp add: cell_absent[OF assms(2)] loadCSV_lengths map_replicate_const)

lemma channel_present_loadCSV:
  assumes "name \<in> set required_columns \<or> name \<in> set rate_columns"
    and "name \<in> set (csv_headers text)"
    and "list_all (\<lambda>r. length (csv_headers text) \<le> length r) (csv_rows num text)"
  shows "length (channel name (loadCSV num text)) = length (traj_t (loadCSV num text))"
    and "list_all is_num (channel name (loadCSV num text))"
  unfolding channel_loadCSV[OF assms(1)]
  using assms(3) by (auto simp: loadCSV_lengths list_all_iff intro: cell_present[OF assms(2)])

lemma getCol_absent: "map_of table name = None \<Longrightarrow> getCol table name = []"
  by (simp add: getCol_def)

lemma table_record_fields:
  "traj_pos (table_record table) =
     map (\<lambda>i. (elem_at (getCol table ''x'') i, elem_at (getCol table ''y'') i,
                elem_at (getCol table ''z'') i)) [0..<length (getCol table ''t'')]"
  "traj_vel (table_record table) =
     map (\<lambda>i. (elem_at (getCol table ''vx'') i, elem_at (getCol table ''vy'') i,
                elem_at (getCol table ''vz'') i)) [0..<length (getCol table ''t'')]"
  "traj_quat (table_record table) =
     map (\<lambda>i. (elem_at (getCol table ''qw'') i, elem_at (getCol table ''qx'') i,
                elem_at (getCol table ''qy'') i, elem_at (getCol table ''qz'') i))
       [0..<length (getCol table ''t'')]"
  "traj_omega (table_record table) =
     map (\<lambda>i. (elem_at (getCol table ''omx'') i, elem_at (getCol table ''omy'') i,
                elem_at (getCol table ''omz'') i)) [0..<length (getCol table ''t'')]"
  "traj_fuel (table_record table) =
     map (\<lambda>i. nullish_NaN (elem_at (getCol table ''fuel'') i)) [0..<length (getCol table ''t'')]"
  by (simp_all add: table_record_def Let_def)

lemma channel_table_record:
  assumes "name \<in> set required_columns \<or> name \<in> set rate_columns" and "name \<noteq> ''t''"
  shows "channel name (table_record table) =
           map (elem_at (getCol table name)) [0..<length (getCol table ''t'')]"
proof -
  show ?thesis
    using names_cases[OF assms(1)] assms(2)
    by (elim insertE emptyE; simp add: channel_def table_record_fields comp_def)
qed

lemma elem_at_Nil: "elem_at [] = (\<lambda>i. Undefined)"
  by (rule ext) (simp add: elem_at_def)

lemma table_record_t: "traj_t (table_record table) = getCol table ''t''"
  by (simp add: table_record_def Let_def)

lemma channel_absent_table_record:
  assumes "name \<in> set required_columns \<or> name \<in> set rate_columns" and "name \<noteq> ''t''"
    and "map_of table name = None"
  shows "channel name (table_record table) = replicate (length (traj_t (table_record table))) Undefined"
  unfolding channel_table_record[OF assms(1,2)] getCol_absent[OF assms(3)] table_record_t
  by (simp add: elem_at_Nil map_replicate_const)










section \<open>Scene renderer: snapshot capture\<close>

text \<open>
  C7.  A snapshot capture leaves the live view as it found it.  The live view renders to
  the canvas (the renderer's target is \<open>null\<close>); then, whatever pose is captured and
  whether or not the label can be formatted, the context after \<open>addSnapshot\<close> is the
  context before it: the rocket's position and quaternion are the values they had, the
  camera is untouched, and the next live rendering is the one that would have been made
  without the capture.
\<close>

theorem addSnapshot_restores_live_view:
  assumes "render_target ctx = None"
    and "addSnapshot rd container ctx pos q t = (container', ctx', err)"
  shows "ctx' = ctx
         \<and> rocket_position ctx' = rocket_position ctx
         \<and> rocket_quaternion ctx' = rocket_quaternion ctx
         \<and> renderer_render ctx' (scene_camera ctx') = renderer_render ctx (scene_camera ctx)"
proof -
  have "ctx' = ctx"
    using assms
    by (cases q; cases pos; cases t) (auto simp: addSnapshot_def Let_def renderer_render_def)
  then show ?thesis by simp
qed

lemma setupThree_target: "render_target (setupThree a) = None"
  by (simp add: setupThree_def renderer_render_def Let_def)

theorem addSnapshot_restores_live_view_witness:
  "render_target (setupThree (Fin (3 / 2))) = None
   \<and> fst (snd (addSnapshot round_double [] (setupThree (Fin (3 / 2)))
                 (Num (Fin 10), Num (Fin 20), Num (Fin 30))
                 (Num (Fin 0), Num (Fin 1), Num (Fin 0), Num (Fin 0)) (Num (Fin 5))))
       = setupThree (Fin (3 / 2))"
proof -
  have h: "render_target (setupThree (Fin (3 / 2))) = None" by (rule setupThree_target)
  obtain c x e where r:
    "addSnapshot round_double [] (setupThree (Fin (3 / 2)))
       (Num (Fin 10), Num (Fin 20), Num (Fin 30))
       (Num (Fin 0), Num (Fin 1), Num (Fin 0), Num (Fin 0)) (Num (Fin 5)) = (c, x, e)"
    by (metis prod_cases3)
  show ?thesis
    using h addSnapshot_restores_live_view[OF h r] by (simp add: r)
qed

lemma addSnapshot_pose_any_target:
  "rocket_position (fst (snd (addSnapshot rd container ctx pos q t))) = rocket_position ctx"
  "rocket_quaternion (fst (snd (addSnapshot rd container ctx pos q t))) = rocket_quaternion ctx"
  "scene_camera (fst (snd (addSnapshot rd container ctx pos q t))) = scene_camera ctx"
  "canvas (fst (snd (addSnapshot rd container ctx pos q t))) = canvas ctx"
  by (cases q; cases pos; cases t; simp add: addSnapshot_def Let_def renderer_render_def)+

section \<open>Controller: what the handlers leave unchanged, and when they complete\<close>

lemma updateNavball_frame [simp]:
  "data (updateNavball rd st v q) = data st"
  "euler (updateNavball rd st v q) = euler st"
  "playing (updateNavball rd st v q) = playing st"
  "slider_value (updateNavball rd st v q) = slider_value st"
  "slider_max (updateNavball rd st v q) = slider_max st"
  "speed_value (updateNavball rd st v q) = speed_value st"
  "alerts (updateNavball rd st v q) = alerts st"
  "three (updateNavball rd st v q) = three st"
  "cursorIndices (updateNavball rd st v q) = cursorIndices st"
  "snapshots (updateNavball rd st v q) = snapshots st"
  by (simp_all add: updateNavball_def split: bool.splits option.splits)

lemma onTimeChange_frame:
  "data (fst (onTimeChange rd st)) = data st"
  "euler (fst (onTimeChange rd st)) = euler st"
  "playing (fst (onTimeChange rd st)) = playing st"
  "slider_value (fst (onTimeChange rd st)) = slider_value st"
  "slider_max (fst (onTimeChange rd st)) = slider_max st"
  "speed_value (fst (onTimeChange rd st)) = speed_value st"
  "alerts (fst (onTimeChange rd st)) = alerts st"
  "cursorIndices (fst (onTimeChange rd st)) = cursorIndices st"
  "snapshots (fst (onTimeChange rd st)) = snapshots st"
  by (simp_all add: onTimeChange_def Let_def split: option.splits jsval.splits prod.splits sum.splits)

lemma range_value_0 [simp]: "range_value mx (Fin 0) = Fin 0"
  by (simp add: range_value_def Let_def)

lemma setData_frame:
  "data (fst (setData rd p st)) = Some p"
  "euler (fst (setData rd p st)) = Some (computeEulerAll rd (traj_quat p))"
  "playing (fst (setData rd p st)) = playing st"
  "slider_value (fst (setData rd p st)) = Fin 0"
  "slider_max (fst (setData rd p st)) = last_index p"
  "speed_value (fst (setData rd p st)) = speed_value st"
  "alerts (fst (setData rd p st)) = alerts st"
  by (simp_all add: setData_def Let_def split: option.splits jsval.splits prod.splits sum.splits)

lemma array_get_nat: "k < length xs \<Longrightarrow> array_get xs (Fin (real k)) = Some (xs ! k)"
  by (simp add: array_get_def)

lemma array_get_0: "xs \<noteq> [] \<Longrightarrow> array_get xs (Fin 0) = Some (xs ! 0)"
  using array_get_nat[of 0 xs] by simp

lemma is_indexE:
  assumes "is_index N v"
  obtains k where "k < N" and "v = Fin (real k)"
proof -
  from assms obtain r where v: "v = Fin r" and r: "0 \<le> r" "r = of_int \<lfloor>r\<rfloor>" "nat \<lfloor>r\<rfloor> < N"
    by (auto simp: is_index_def split: jsnum.splits)
  have "r = real (nat \<lfloor>r\<rfloor>)"
    using r(1,2) by (metis of_int_0_le_iff of_nat_nat)
  with v r(3) show ?thesis using that by blast
qed

lemma is_index_nat [simp]: "is_index N (Fin (real k)) = (k < N)"
  by (simp add: is_index_def)

lemma is_stepE:
  assumes "is_step v"
  obtains s :: int where "\<bar>real_of_int s\<bar> \<le> 2 ^ 52" and "v = Fin (of_int s)"
proof -
  from assms obtain r where v: "v = Fin r" and r: "r = of_int \<lfloor>r\<rfloor>" "\<bar>r\<bar> \<le> 2 ^ 52"
    by (auto simp: is_step_def split: jsnum.splits)
  show ?thesis
    using that[of "\<lfloor>r\<rfloor>"] v r by simp
qed

lemma complete_t_nth:
  assumes "complete_record d" and "k < length (traj_t d)"
  shows "\<exists>tn. traj_t d ! k = Num tn"
proof -
  have "is_num (traj_t d ! k)"
    using assms by (simp add: complete_record_def list_all_length)
  then show ?thesis by (cases "traj_t d ! k") (simp_all add: is_num_def)
qed

lemma updateThreePose_ok:
  assumes "is_num (fst ps)"
  shows "snd (updateThreePose rd c (Some ps) (Some q)) = None"
  using assms
  by (cases c; cases q; cases ps)
    (simp_all add: updateThreePose_def updateCameraFollow_def vector3_set_def is_num_def Let_def
      split: prod.splits)

lemma updateThreePose_okD:
  "is_num (fst ps) \<Longrightarrow> updateThreePose rd c (Some ps) (Some q) = (c', err) \<Longrightarrow> err = None"
  using updateThreePose_ok[of ps rd c q] by simp

lemma updateThreePose_throws:
  "updateThreePose rd (Some ctx) (Some (Undefined, p1, p2)) (Some q) = (c', err) \<Longrightarrow> err = Some TypeError"
  by (cases q)
    (auto simp: updateThreePose_def updateCameraFollow_def vector3_set_def Let_def split: prod.splits)

lemma complete_x_nth:
  assumes "complete_record d" and "k < length (traj_t d)"
  shows "is_num (fst (traj_pos d ! k))"
  using assms by (simp add: complete_record_def list_all_length)

lemma updateReadout_ok:
  assumes "k < length (traj_pos d)" "k < length (traj_vel d)" "k < length e"
  shows "\<exists>cells. updateReadout rd d e (Fin (real k)) = Inr cells"
  using assms by (simp add: updateReadout_def array_get_nat split: prod.splits)

lemma onTimeChange_ok:
  assumes d: "data st = Some d" and e: "euler st = Some e" and c: "complete_record d"
    and n: "length e = length (traj_t d)" and i: "is_index (length (traj_t d)) (slider_value st)"
  shows "snd (onTimeChange rd st) = None"
proof -
  from i obtain k where k: "k < length (traj_t d)" and v: "slider_value st = Fin (real k)"
    by (rule is_indexE)
  obtain tn where tn: "traj_t d ! k = Num tn"
    using complete_t_nth[OF c k] by blast
  have l: "k < length (traj_pos d)" "k < length (traj_vel d)" "k < length (traj_quat d)" "k < length e"
    using c k n by (simp_all add: complete_record_def)
  obtain cells where cells: "updateReadout rd d e (Fin (real k)) = Inr cells"
    using updateReadout_ok[OF l(1,2,4)] by blast
  obtain c' where c': "updateThreePose rd (three st) (Some (traj_pos d ! k)) (Some (traj_quat d ! k)) = (c', None)"
    using updateThreePose_ok[OF complete_x_nth[OF c k], of rd "three st" "traj_quat d ! k"]
    by (metis prod.collapse)
  show ?thesis
    using d e k l tn
    by (simp add: onTimeChange_def Let_def v array_get_nat c' cells)
qed

lemma drawLines_ok:
  assumes "length series3 = length t"
  shows "\<exists>pl. drawLines rd t series3 = Inr pl"
  using assms by (simp add: drawLines_def drawLines_scale_def)

lemma setData_ok:
  assumes c: "complete_record p" and n: "traj_t p \<noteq> []"
  shows "snd (setData rd p st) = None"
proof -
  have k: "0 < length (traj_t p)" using n by simp
  obtain tn where tn: "traj_t p ! 0 = Num tn"
    using complete_t_nth[OF c k] by blast
  have l: "traj_pos p \<noteq> []" "traj_quat p \<noteq> []"
    using c n by (auto simp: complete_record_def)
  have x: "is_num (fst (traj_pos p ! 0))" using complete_x_nth[OF c k] .
  obtain pl1 where pl1: "drawLines rd (traj_t p) (traj_pos p) = Inr pl1"
    using drawLines_ok[of "traj_pos p" "traj_t p"] c by (auto simp: complete_record_def)
  obtain pl2 where pl2: "drawLines rd (traj_t p) (traj_vel p) = Inr pl2"
    using drawLines_ok[of "traj_vel p" "traj_t p"] c by (auto simp: complete_record_def)
  obtain pl3 where pl3:
    "drawLines rd (traj_t p) (map (euler_degrees rd) (computeEulerAll rd (traj_quat p))) = Inr pl3"
    using drawLines_ok[of "map (euler_degrees rd) (computeEulerAll rd (traj_quat p))" "traj_t p"] c
    by (auto simp: complete_record_def computeEulerAll_def)
  show ?thesis
    using n l tn
    by (auto simp: setData_def Let_def array_get_0 pl1 pl2 pl3
        split: prod.splits option.splits dest: updateThreePose_okD[OF x])
qed

lemma fileInput_change_installs:
  assumes "parse_file num decode f = Inr p" and "complete_record p" and "traj_t p \<noteq> []"
  shows "fileInput_change rd num decode st (Some f) = fst (setData rd p st)"
    and "data (fileInput_change rd num decode st (Some f)) = Some p"
    and "euler (fileInput_change rd num decode st (Some f)) = Some (computeEulerAll rd (traj_quat p))"
    and "alerts (fileInput_change rd num decode st (Some f)) = alerts st"
proof -
  have "snd (setData rd p st) = None" using assms(2,3) by (rule setData_ok)
  then show a: "fileInput_change rd num decode st (Some f) = fst (setData rd p st)"
    using assms(1) by (cases "setData rd p st") (simp add: fileInput_change_def)
  show "data (fileInput_change rd num decode st (Some f)) = Some p"
    "euler (fileInput_change rd num decode st (Some f)) = Some (computeEulerAll rd (traj_quat p))"
    "alerts (fileInput_change rd num decode st (Some f)) = alerts st"
    by (simp_all add: a setData_frame)
qed

lemma fileInput_change_data:
  assumes "parse_file num decode f = Inr p"
  shows "data (fileInput_change rd num decode st (Some f)) = Some p"
    and "euler (fileInput_change rd num decode st (Some f)) = Some (computeEulerAll rd (traj_quat p))"
proof -
  obtain st' err where r: "setData rd p st = (st', err)" by (cases "setData rd p st")
  then have "data st' = Some p" "euler st' = Some (computeEulerAll rd (traj_quat p))"
    using setData_frame(1,2)[of rd p st] by simp_all
  then show "data (fileInput_change rd num decode st (Some f)) = Some p"
    "euler (fileInput_change rd num decode st (Some f)) = Some (computeEulerAll rd (traj_quat p))"
    using assms r by (cases err; simp add: fileInput_change_def)+
qed

text \<open>
  A record whose first position has no first component: \<open>setData\<close> throws in the camera's
  \<open>lookAt\<close>, and the handler shows the message, after the record has been installed.
\<close>

lemma setData_throws_lookAt:
  assumes t: "traj_t p = Num t0 # ts"
    and l: "length (traj_pos p) = length (traj_t p)" "length (traj_vel p) = length (traj_t p)"
      "length (traj_quat p) = length (traj_t p)"
    and x: "fst (traj_pos p ! 0) = Undefined"
  shows "snd (setData rd p st) = Some TypeError"
proof -
  have n: "traj_t p \<noteq> []" "traj_pos p \<noteq> []" "traj_quat p \<noteq> []"
    using t l by auto
  obtain p1 p2 where ps: "traj_pos p ! 0 = (Undefined, p1, p2)"
    using x by (cases "traj_pos p ! 0") auto
  obtain pl1 where pl1: "drawLines rd (traj_t p) (traj_pos p) = Inr pl1"
    using drawLines_ok[of "traj_pos p" "traj_t p"] l by auto
  obtain pl2 where pl2: "drawLines rd (traj_t p) (traj_vel p) = Inr pl2"
    using drawLines_ok[of "traj_vel p" "traj_t p"] l by auto
  obtain pl3 where pl3:
    "drawLines rd (traj_t p) (map (euler_degrees rd) (computeEulerAll rd (traj_quat p))) = Inr pl3"
    using drawLines_ok[of "map (euler_degrees rd) (computeEulerAll rd (traj_quat p))" "traj_t p"] l
    by (auto simp: computeEulerAll_def)
  have t0: "array_get (traj_t p) (Fin 0) = Some (Num t0)"
    using t by (simp add: array_get_0)
  show ?thesis
    using n
    by (auto simp: setData_def Let_def array_get_0 t0 pl1 pl2 pl3 ps
        split: prod.splits option.splits dest: updateThreePose_throws)
qed

section \<open>The example files\<close>

lemma file_ext_csv: "file_ext ''run.csv'' = ''csv''"
  by (simp add: file_ext_def to_lower_def)

lemma file_ext_parquet: "file_ext ''run.parquet'' = ''parquet''"
  by (simp add: file_ext_def to_lower_def)

lemma split_lines_required:
  "split_lines (trim csv_required_only) =
     [''t,x,y,z,vx,vy,vz,qw,qx,qy,qz'', ''0,1,2,3,4,5,6,1,0,0,0'', ''1,2,3,4,5,6,7,1,0,0,0'']"
  by (simp add: csv_required_only_def trim_def is_space_def split_lines_def strip_cr_def)

lemma csv_headers_required:
  "csv_headers csv_required_only = [''t'', ''x'', ''y'', ''z'', ''vx'', ''vy'', ''vz'', ''qw'', ''qx'', ''qy'', ''qz'']"
  unfolding csv_headers_def split_lines_required by (simp add: trim_def is_space_def)

lemma csv_rows_required:
  "csv_rows num_digits csv_required_only =
     [[Fin 0, Fin 1, Fin 2, Fin 3, Fin 4, Fin 5, Fin 6, Fin 1, Fin 0, Fin 0, Fin 0],
      [Fin 1, Fin 2, Fin 3, Fin 4, Fin 5, Fin 6, Fin 7, Fin 1, Fin 0, Fin 0, Fin 0]]"
  unfolding csv_rows_def split_lines_required
  by (simp add: num_digits_def is_digit_def digit_of_def)

lemma loadCSV_required:
  "loadCSV num_digits csv_required_only =
     \<lparr>traj_t = [Num (Fin 0), Num (Fin 1)],
      traj_pos = [(Num (Fin 1), Num (Fin 2), Num (Fin 3)), (Num (Fin 2), Num (Fin 3), Num (Fin 4))],
      traj_vel = [(Num (Fin 4), Num (Fin 5), Num (Fin 6)), (Num (Fin 5), Num (Fin 6), Num (Fin 7))],
      traj_quat = [(Num (Fin 1), Num (Fin 0), Num (Fin 0), Num (Fin 0)),
                   (Num (Fin 1), Num (Fin 0), Num (Fin 0), Num (Fin 0))],
      traj_omega = [(Undefined, Undefined, Undefined), (Undefined, Undefined, Undefined)],
      traj_fuel = [Num NaN, Num NaN]\<rparr>"
  unfolding loadCSV_def csv_rows_required csv_headers_required
  by (simp add: header_index_def cell_def Let_def upt_rec numeral_2_eq_2)

lemma complete_required: "complete_record (loadCSV num_digits csv_required_only)"
  by (simp add: loadCSV_required complete_record_def is_num_def)

lemma parse_run_csv:
  "parse_file num decode (''run.csv'', text) = Inr (loadCSV num text)"
  by (simp add: parse_file_def file_ext_csv)

lemma loaded_state_eq:
  "loaded_state = fst (setData round_double (loadCSV num_digits csv_required_only) (initial_state (Fin (3 / 2))))"
proof -
  have "snd (setData round_double (loadCSV num_digits csv_required_only) (initial_state (Fin (3 / 2)))) = None"
    by (rule setData_ok[OF complete_required]) (simp add: loadCSV_required)
  then show ?thesis
    by (cases "setData round_double (loadCSV num_digits csv_required_only) (initial_state (Fin (3 / 2)))")
      (simp add: loaded_state_def fileInput_change_def parse_run_csv)
qed

lemma loaded_state_fields:
  "data loaded_state = Some (loadCSV num_digits csv_required_only)"
  "euler loaded_state = Some (computeEulerAll round_double (traj_quat (loadCSV num_digits csv_required_only)))"
  "playing loaded_state = False"
  "slider_value loaded_state = Fin 0"
  "speed_value loaded_state = Fin 1"
  "alerts loaded_state = []"
  "slider_max loaded_state = Fin 1"
  by (simp_all add: loaded_state_eq setData_frame initial_state_def last_index_def loadCSV_required)

lemma split_lines_no_quat:
  "split_lines (trim csv_no_quat) = [''t,x,y,z,vx,vy,vz'', ''0,1,2,3,4,5,6'', ''1,2,3,4,5,6,7'']"
  by (simp add: csv_no_quat_def trim_def is_space_def split_lines_def strip_cr_def)

lemma csv_headers_no_quat:
  "csv_headers csv_no_quat = [''t'', ''x'', ''y'', ''z'', ''vx'', ''vy'', ''vz'']"
  unfolding csv_headers_def split_lines_no_quat by (simp add: trim_def is_space_def)

lemma csv_rows_no_quat:
  "csv_rows num_digits csv_no_quat =
     [[Fin 0, Fin 1, Fin 2, Fin 3, Fin 4, Fin 5, Fin 6], [Fin 1, Fin 2, Fin 3, Fin 4, Fin 5, Fin 6, Fin 7]]"
  unfolding csv_rows_def split_lines_no_quat
  by (simp add: num_digits_def is_digit_def digit_of_def)

lemma loadCSV_no_quat:
  "loadCSV num_digits csv_no_quat =
     \<lparr>traj_t = [Num (Fin 0), Num (Fin 1)],
      traj_pos = [(Num (Fin 1), Num (Fin 2), Num (Fin 3)), (Num (Fin 2), Num (Fin 3), Num (Fin 4))],
      traj_vel = [(Num (Fin 4), Num (Fin 5), Num (Fin 6)), (Num (Fin 5), Num (Fin 6), Num (Fin 7))],
      traj_quat = [(Undefined, Undefined, Undefined, Undefined),
                   (Undefined, Undefined, Undefined, Undefined)],
      traj_omega = [(Undefined, Undefined, Undefined), (Undefined, Undefined, Undefined)],
      traj_fuel = [Num NaN, Num NaN]\<rparr>"
  unfolding loadCSV_def csv_rows_no_quat csv_headers_no_quat
  by (simp add: header_index_def cell_def Let_def upt_rec numeral_2_eq_2)

lemma complete_no_quat: "complete_record (loadCSV num_digits csv_no_quat)"
  by (simp add: loadCSV_no_quat complete_record_def is_num_def)

lemma split_lines_no_x:
  "split_lines (trim csv_no_x) = [''t,y,z,vx,vy,vz,qw,qx,qy,qz'', ''0,2,3,4,5,6,1,0,0,0'', ''1,3,4,5,6,7,1,0,0,0'']"
  by (simp add: csv_no_x_def trim_def is_space_def split_lines_def strip_cr_def)

lemma csv_headers_no_x:
  "csv_headers csv_no_x = [''t'', ''y'', ''z'', ''vx'', ''vy'', ''vz'', ''qw'', ''qx'', ''qy'', ''qz'']"
  unfolding csv_headers_def split_lines_no_x by (simp add: trim_def is_space_def)

lemma csv_rows_no_x:
  "csv_rows num_digits csv_no_x =
     [[Fin 0, Fin 2, Fin 3, Fin 4, Fin 5, Fin 6, Fin 1, Fin 0, Fin 0, Fin 0],
      [Fin 1, Fin 3, Fin 4, Fin 5, Fin 6, Fin 7, Fin 1, Fin 0, Fin 0, Fin 0]]"
  unfolding csv_rows_def split_lines_no_x
  by (simp add: num_digits_def is_digit_def digit_of_def)

lemma loadCSV_no_x:
  "loadCSV num_digits csv_no_x =
     \<lparr>traj_t = [Num (Fin 0), Num (Fin 1)],
      traj_pos = [(Undefined, Num (Fin 2), Num (Fin 3)), (Undefined, Num (Fin 3), Num (Fin 4))],
      traj_vel = [(Num (Fin 4), Num (Fin 5), Num (Fin 6)), (Num (Fin 5), Num (Fin 6), Num (Fin 7))],
      traj_quat = [(Num (Fin 1), Num (Fin 0), Num (Fin 0), Num (Fin 0)),
                   (Num (Fin 1), Num (Fin 0), Num (Fin 0), Num (Fin 0))],
      traj_omega = [(Undefined, Undefined, Undefined), (Undefined, Undefined, Undefined)],
      traj_fuel = [Num NaN, Num NaN]\<rparr>"
  unfolding loadCSV_def csv_rows_no_x csv_headers_no_x
  by (simp add: header_index_def cell_def Let_def upt_rec numeral_2_eq_2)

section \<open>File handling: a parser that throws\<close>

text \<open>
  C6.  When the parser throws, the handler shows the message and changes nothing else:
  the installed record, its Euler angles, the playing flag, the slider and the speed are
  what they were.
\<close>

theorem failed_parse_leaves_state:
  assumes "parse_file num decode f = Inl err"
  shows "fileInput_change rd num decode st (Some f) =
           st\<lparr>alerts := alerts st @ [''Failed to load file: '' @ message err]\<rparr>
         \<and> data (fileInput_change rd num decode st (Some f)) = data st
         \<and> euler (fileInput_change rd num decode st (Some f)) = euler st
         \<and> playing (fileInput_change rd num decode st (Some f)) = playing st
         \<and> slider_value (fileInput_change rd num decode st (Some f)) = slider_value st
         \<and> speed_value (fileInput_change rd num decode st (Some f)) = speed_value st"
  using assms by (simp add: fileInput_change_def)

theorem failed_parse_leaves_state_witness:
  "parse_file num_digits no_decoder (''run.parquet'', ''PAR1'') = Inl (LoadError ''Invalid parquet file'')
   \<and> data (fileInput_change round_double num_digits no_decoder loaded_state
             (Some (''run.parquet'', ''PAR1''))) = Some (loadCSV num_digits csv_required_only)
   \<and> alerts (fileInput_change round_double num_digits no_decoder loaded_state
               (Some (''run.parquet'', ''PAR1''))) = [''Failed to load file: Invalid parquet file'']"
proof -
  have h: "parse_file num_digits no_decoder (''run.parquet'', ''PAR1'') = Inl (LoadError ''Invalid parquet file'')"
    by (simp add: parse_file_def file_ext_parquet loadParquet_def no_decoder_def)
  show ?thesis
    using h failed_parse_leaves_state[OF h, of round_double loaded_state]
    by (simp add: loaded_state_fields)
qed

section \<open>Controller: scrubbing\<close>

lemma handlePlotClick_playing: "playing (fst (handlePlotClick rd st x w)) = playing st"
  by (simp add: handlePlotClick_def Let_def onTimeChange_frame split: option.splits)

lemma timeSlider_input_stops:
  "playing (fst (timeSlider_input rd st j)) = False"
  "slider_value (fst (timeSlider_input rd st j)) = range_value (slider_max st) j"
  by (simp_all add: timeSlider_input_def Let_def onTimeChange_frame)

lemma handlePlotClick_slider:
  assumes "data st = Some d"
  shows "slider_value (fst (handlePlotClick rd st x w)) =
           range_value (slider_max st)
             (Math_max (Fin 0) (Math_min (last_index d)
                (Math_round (js_mul rd (js_div rd x w) (last_index d)))))"
  using assms by (simp add: handlePlotClick_def Let_def onTimeChange_frame)

lemma range_value_1_1: "range_value (Fin 1) (Fin 1) = Fin 1"
  by (simp add: range_value_def Let_def)

lemma last_index_required: "last_index (loadCSV num_digits csv_required_only) = Fin 1"
  by (simp add: last_index_def loadCSV_required)

lemma computeEulerAll_length [simp]: "length (computeEulerAll rd qs) = length qs"
  by (simp add: computeEulerAll_def)

text \<open>
  C9.  A click in a plot does not stop playback.  On the page with the two-sample file
  loaded and playback started, a click in the middle of a plot moves the index to 1,
  completes without an exception and leaves the controller Playing, where moving the
  slider to the same index leaves it Stopped.
\<close>

theorem plot_click_keeps_playing:
  "playing (playPause_click loaded_state)
   \<and> handlePlotClick round_double (playPause_click loaded_state) (Fin 50) (Fin 100)
       = (fst (handlePlotClick round_double (playPause_click loaded_state) (Fin 50) (Fin 100)), None)
   \<and> slider_value (fst (handlePlotClick round_double (playPause_click loaded_state) (Fin 50) (Fin 100)))
       = Fin 1
   \<and> playing (fst (handlePlotClick round_double (playPause_click loaded_state) (Fin 50) (Fin 100)))
   \<and> \<not> playing (fst (timeSlider_input round_double (playPause_click loaded_state) (Fin 1)))"
proof -
  let ?st = "playPause_click loaded_state"
  let ?d = "loadCSV num_digits csv_required_only"
  have d: "data ?st = Some ?d" and p: "playing ?st" and m: "slider_max ?st = Fin 1"
    by (simp_all add: playPause_click_def loaded_state_fields)
  have s: "slider_value (fst (handlePlotClick round_double ?st (Fin 50) (Fin 100))) = Fin 1"
    by (simp add: handlePlotClick_slider[OF d] m last_index_required round_double_half range_value_1_1)
  have "snd (onTimeChange round_double (?st\<lparr>slider_value := Fin 1\<rparr>)) = None"
    by (rule onTimeChange_ok[where d = ?d])
      (simp_all add: playPause_click_def loaded_state_fields complete_required,
        simp_all add: loadCSV_required is_index_def)
  then have e: "snd (handlePlotClick round_double ?st (Fin 50) (Fin 100)) = None"
    using d m by (simp add: handlePlotClick_def Let_def last_index_required round_double_half
        range_value_1_1)
  show ?thesis
    using p s e by (simp add: handlePlotClick_playing timeSlider_input_stops prod_eq_iff)
qed

section \<open>Controller: the index stays in range\<close>

lemma range_value_Fin:
  "range_value (Fin m) (Fin b) =
     Fin (of_int (if 0 \<le> m \<and> m < of_int \<lfloor>(if b < 0 then 0 else if 0 \<le> m \<and> m < b then m else b) + 1 / 2\<rfloor>
                  then \<lfloor>m\<rfloor>
                  else \<lfloor>(if b < 0 then 0 else if 0 \<le> m \<and> m < b then m else b) + 1 / 2\<rfloor>))"
  by (simp add: range_value_def Let_def)

lemma range_value_not_finite:
  assumes "0 \<le> m" and "\<And>b. v \<noteq> Fin b"
  shows "range_value (Fin m) v = range_value (Fin m) (Fin (m / 2))"
proof (cases v)
  case (Fin x)
  then show ?thesis using assms(2) by blast
qed (use assms(1) in \<open>simp_all add: range_value_def Let_def\<close>)

lemma range_value_index_Fin:
  assumes "0 < N"
  shows "is_index N (range_value (Fin (real N - 1)) (Fin b))"
proof -
  define m where "m = real N - 1"
  define c where "c = (if b < 0 then 0 else if 0 \<le> m \<and> m < b then m else b)"
  define k where "k = \<lfloor>c + 1 / 2\<rfloor>"
  have m0: "0 \<le> m" using assms by (simp add: m_def)
  have mi: "m = of_int (int N - 1)" using assms by (simp add: m_def)
  have c: "0 \<le> c" "c \<le> m" using m0 by (auto simp: c_def)
  have k0: "0 \<le> k" unfolding k_def using c(1) by simp
  have "c + 1 / 2 < of_int (int N - 1) + 1" using c(2) unfolding mi by linarith
  then have "k < (int N - 1) + 1" unfolding k_def by (simp add: floor_less_iff)
  then have kN: "k < int N" by simp
  have nk: "\<not> m < of_int k" using kN unfolding mi by simp
  have "range_value (Fin m) (Fin b) = Fin (of_int (if 0 \<le> m \<and> m < of_int k then \<lfloor>m\<rfloor> else k))"
    unfolding range_value_Fin k_def c_def ..
  then have "range_value (Fin (real N - 1)) (Fin b) = Fin (of_int k)"
    using nk by (simp add: m_def)
  moreover have "is_index N (Fin (of_int k))"
    using k0 kN by (simp add: is_index_def)
  ultimately show ?thesis by simp
qed

lemma range_value_index:
  assumes "0 < N"
  shows "is_index N (range_value (Fin (real N - 1)) v)"
proof (cases "\<exists>b. v = Fin b")
  case True
  then show ?thesis using range_value_index_Fin[OF assms] by auto
next
  case False
  then have "range_value (Fin (real N - 1)) v = range_value (Fin (real N - 1)) (Fin ((real N - 1) / 2))"
    using assms by (intro range_value_not_finite) auto
  then show ?thesis using range_value_index_Fin[OF assms] by simp
qed

lemma range_value_int:
  assumes "0 < N"
  shows "range_value (Fin (real N - 1)) (Fin (of_int j)) = Fin (real (clamp_index N j))"
proof -
  have mi: "real N - 1 = of_int (int N - 1)" using assms by simp
  have fl: "\<lfloor>real_of_int i + 1 / 2\<rfloor> = i" for i by linarith
  consider "j < 0" | "0 \<le> j" "j \<le> int N - 1" | "int N - 1 < j" by linarith
  then show ?thesis
  proof cases
    case 1
    then show ?thesis using assms by (simp add: range_value_def Let_def clamp_index_def)
  next
    case 2
    then have "\<not> real N - 1 < real_of_int j" unfolding mi by simp
    moreover have "clamp_index N j = nat j" using 2 by (simp add: clamp_index_def)
    ultimately show ?thesis
      using 2 assms by (simp add: range_value_def Let_def fl)
  next
    case 3
    then have lt: "real N - 1 < real_of_int j" unfolding mi by simp
    have cl: "clamp_index N j = N - 1" using 3 assms by (simp add: clamp_index_def)
    have "\<lfloor>real N - 1 + 1 / 2\<rfloor> = int N - 1"
      unfolding mi by (rule fl)
    then show ?thesis
      using 3 assms lt unfolding cl
      by (simp add: range_value_def Let_def of_nat_diff)
  qed
qed

lemma clamp_index_less: "0 < N \<Longrightarrow> clamp_index N j < N"
  by (auto simp: clamp_index_def)

lemma clamp_index_forward:
  assumes "0 < N"
  shows "clamp_index N (int k + int s) = min (N - 1) (k + s)"
  using assms by (auto simp: clamp_index_def min_def)

lemma clamp_index_min:
  assumes "0 < N"
  shows "clamp_index N (min (int N - 1) j) = clamp_index N j"
  by (auto simp: clamp_index_def)

lemma controller_inv_frame:
  assumes "controller_inv N st"
    and "data st' = data st" and "euler st' = euler st" and "slider_max st' = slider_max st"
    and "is_index N (slider_value st')"
  shows "controller_inv N st'"
  using assms by (simp add: controller_inv_def split: option.splits)

lemma controller_invD:
  assumes "controller_inv N st"
  obtains d e k where "data st = Some d" and "euler st = Some e" and "complete_record d"
    and "length (traj_t d) = N" and "length e = N" and "0 < N" and "real N \<le> 2 ^ 52"
    and "slider_max st = Fin (real N - 1)" and "k < N" and "slider_value st = Fin (real k)"
proof -
  from assms obtain d e where de: "data st = Some d" "euler st = Some e"
    and r: "complete_record d" "length (traj_t d) = N" "length e = N" "0 < N" "real N \<le> 2 ^ 52"
      "slider_max st = Fin (real N - 1)" "is_index N (slider_value st)"
    by (auto simp: controller_inv_def split: option.splits)
  from r(7) obtain k where "k < N" "slider_value st = Fin (real k)" by (rule is_indexE)
  then show ?thesis using that de r by blast
qed

lemma last_index_nat:
  assumes "length (traj_t d) = N"
  shows "last_index d = Fin (real N - 1)"
  using assms by (simp add: last_index_def)

lemma tick_frame:
  "data (fst (tick rd st)) = data st"
  "euler (fst (tick rd st)) = euler st"
  "speed_value (fst (tick rd st)) = speed_value st"
  "slider_max (fst (tick rd st)) = slider_max st"
proof -
  have "data (fst (tick rd st)) = data st \<and> euler (fst (tick rd st)) = euler st
        \<and> speed_value (fst (tick rd st)) = speed_value st
        \<and> slider_max (fst (tick rd st)) = slider_max st"
  proof (cases "data st")
    case None
    then show ?thesis by (simp add: tick_def)
  next
    case (Some d)
    define st1 where
      "st1 = st\<lparr>slider_value := range_value (slider_max st)
                 (Math_min (last_index d) (js_add rd (slider_value st) (speed_value st)))\<rparr>"
    obtain st2 err where r: "onTimeChange rd st1 = (st2, err)" by (cases "onTimeChange rd st1")
    then have "data st2 = data st" "euler st2 = euler st" "speed_value st2 = speed_value st"
      "slider_max st2 = slider_max st"
      using onTimeChange_frame[of rd st1] by (simp_all add: st1_def)
    then show ?thesis
      using Some r by (cases err) (simp_all add: tick_def Let_def st1_def[symmetric])
  qed
  then show "data (fst (tick rd st)) = data st" "euler (fst (tick rd st)) = euler st"
    "speed_value (fst (tick rd st)) = speed_value st"
    "slider_max (fst (tick rd st)) = slider_max st"
    by simp_all
qed

lemma tick_slider:
  assumes "data st = Some d" and "playing st"
  shows "slider_value (fst (tick rd st)) =
           range_value (slider_max st)
             (Math_min (last_index d) (js_add rd (slider_value st) (speed_value st)))"
proof -
  define st1 where
    "st1 = st\<lparr>slider_value := range_value (slider_max st)
               (Math_min (last_index d) (js_add rd (slider_value st) (speed_value st)))\<rparr>"
  obtain st2 err where r: "onTimeChange rd st1 = (st2, err)" by (cases "onTimeChange rd st1")
  then have "slider_value st2 = slider_value st1"
    using onTimeChange_frame[of rd st1] by simp
  then show ?thesis
    using assms r by (cases err) (simp_all add: tick_def Let_def st1_def[symmetric], simp_all add: st1_def)
qed

lemma tick_not_playing:
  assumes "\<not> playing st"
  shows "tick rd st = (st, None)"
  using assms by (simp add: tick_def split: option.splits)

lemma tick_inv:
  assumes inv: "controller_inv N st"
  shows "controller_inv N (fst (tick rd st))"
proof (cases "playing st")
  case False
  then show ?thesis using inv by (simp add: tick_not_playing)
next
  case True
  from inv obtain d where d: "data st = Some d" and n: "0 < N" and m: "slider_max st = Fin (real N - 1)"
    by (rule controller_invD)
  have "is_index N (slider_value (fst (tick rd st)))"
    unfolding tick_slider[OF d True] m using n by (rule range_value_index)
  then show ?thesis
    by (intro controller_inv_frame[OF inv]) (simp_all add: tick_frame)
qed

lemma tick_playing:
  assumes inv: "controller_inv N st" and p: "playing st"
    and k: "slider_value st = Fin (real k)" and s: "speed_value st = Fin (of_int s)"
    and sb: "\<bar>real_of_int s\<bar> \<le> 2 ^ 52"
  shows "tick round_double st = (fst (tick round_double st), None)"
    and "slider_value (fst (tick round_double st)) = Fin (real (clamp_index N (int k + s)))"
    and "playing (fst (tick round_double st)) = (clamp_index N (int k + s) < N - 1)"
proof -
  from inv obtain d e k' where d: "data st = Some d" and e: "euler st = Some e"
    and c: "complete_record d" and n: "length (traj_t d) = N" "length e = N" "0 < N" "real N \<le> 2 ^ 52"
    and m: "slider_max st = Fin (real N - 1)"
    and k': "k' < N" "slider_value st = Fin (real k')"
    by (rule controller_invD)
  have ks: "k = k'" using k k' by simp
  have li: "last_index d = Fin (real N - 1)" using n by (simp add: last_index_nat)
  have mi: "real N - 1 = of_int (int N - 1)" using n by simp
  have "real k < 2 ^ 52" using k' n ks by simp
  then have "\<bar>real_of_int (int k + s)\<bar> < 2 ^ 53" using sb by simp
  then have "\<bar>int k + s\<bar> < 2 ^ 53"
    by (metis of_int_abs of_int_less_numeral_power_cancel_iff)
  then have add: "round_double (real k + real_of_int s) = Fin (of_int (int k + s))"
    using round_double_of_int[of "int k + s"] by simp
  define nx where "nx = clamp_index N (int k + s)"
  have mn: "Math_min (last_index d) (js_add round_double (slider_value st) (speed_value st))
              = Fin (of_int (min (int N - 1) (int k + s)))"
    unfolding li mi by (auto simp: k s add min_def)
  have nxt: "range_value (slider_max st)
               (Math_min (last_index d) (js_add round_double (slider_value st) (speed_value st)))
             = Fin (real nx)"
    unfolding mn m range_value_int[OF n(3)] nx_def by (simp add: clamp_index_min[OF n(3)])
  define st1 where "st1 = st\<lparr>slider_value := Fin (real nx)\<rparr>"
  have nxN: "nx < N" using n by (simp add: nx_def clamp_index_less)
  have ok: "snd (onTimeChange round_double st1) = None"
    by (rule onTimeChange_ok[where d = d and e = e]) (simp_all add: st1_def d e c n nxN)
  obtain st2 where st2: "onTimeChange round_double st1 = (st2, None)"
    using ok by (metis prod.collapse)
  have fr: "slider_value st2 = Fin (real nx)" "playing st2 = True"
    using onTimeChange_frame[of round_double st1] st2 by (simp_all add: st1_def p)
  have ge: "js_ge (Fin (real nx)) (last_index d) = (\<not> nx < N - 1)"
    unfolding li using n(3) by (auto simp: js_ge_def)
  have t: "tick round_double st =
             (if \<not> nx < N - 1 then (st2\<lparr>playing := False\<rparr>, None) else (st2, None))"
    using d p by (simp add: tick_def Let_def nxt st1_def[symmetric] st2 fr ge)
  show "tick round_double st = (fst (tick round_double st), None)"
    by (simp add: t)
  show "slider_value (fst (tick round_double st)) = Fin (real (clamp_index N (int k + s)))"
    by (simp add: t fr nx_def)
  show "playing (fst (tick round_double st)) = (clamp_index N (int k + s) < N - 1)"
    by (simp add: t fr nx_def)
qed

lemma step_inv:
  assumes inv: "controller_inv N st"
  shows "controller_inv N (step rd st ev)"
proof (cases ev)
  case Tick
  then show ?thesis using tick_inv[OF inv] by simp
next
  case (SliderInput j)
  from inv have n: "0 < N" and m: "slider_max st = Fin (real N - 1)"
    by (auto elim: controller_invD)
  have "is_index N (range_value (slider_max st) j)"
    unfolding m using n by (rule range_value_index)
  then show ?thesis
    using SliderInput
    by (auto intro!: controller_inv_frame[OF inv] simp: timeSlider_input_def Let_def onTimeChange_frame)
next
  case (PlotClick x w)
  from inv obtain d where d: "data st = Some d" and n: "0 < N" and m: "slider_max st = Fin (real N - 1)"
    by (rule controller_invD)
  have "is_index N (slider_value (fst (handlePlotClick rd st x w)))"
    unfolding handlePlotClick_slider[OF d] m using n by (rule range_value_index)
  then show ?thesis
    using PlotClick d
    by (auto intro!: controller_inv_frame[OF inv] simp: handlePlotClick_def Let_def onTimeChange_frame)
next
  case PlayPause
  from inv have "is_index N (slider_value st)"
    by (auto simp: controller_inv_def split: option.splits)
  then show ?thesis
    using PlayPause by (auto intro!: controller_inv_frame[OF inv] simp: playPause_click_def)
next
  case (SetSpeed v)
  then show ?thesis
    using inv by (auto simp: controller_inv_def split: option.splits)
qed

lemma run_inv:
  assumes "controller_inv N st"
  shows "controller_inv N (run rd st evs)"
  using assms unfolding run_def
  by (induction evs arbitrary: st) (simp_all add: step_inv)

lemma run_ticks_speed_1:
  assumes inv: "controller_inv N st" and "playing st" and "slider_value st = Fin 0"
    and "speed_value st = Fin 1" and "n < N"
  shows "slider_value (run round_double st (replicate n Tick)) = Fin (real n)
         \<and> playing (run round_double st (replicate n Tick)) = (n = 0 \<or> n < N - 1)
         \<and> controller_inv N (run round_double st (replicate n Tick))
         \<and> speed_value (run round_double st (replicate n Tick)) = Fin 1"
  using assms(5)
proof (induction n)
  case 0
  then show ?case using assms by (simp add: run_def) 
next
  case (Suc n)
  let ?st = "run round_double st (replicate n Tick)"
  have ih: "slider_value ?st = Fin (real n)" "playing ?st" "controller_inv N ?st" "speed_value ?st = Fin 1"
    using Suc by auto
  have N: "0 < N" using Suc.prems by simp
  have "replicate (Suc n) Tick = replicate n Tick @ [Tick]"
    by (simp add: replicate_append_same)
  then have r: "run round_double st (replicate (Suc n) Tick) = fst (tick round_double ?st)"
    by (simp only: run_def foldl_append) simp
  have s1: "speed_value ?st = Fin (of_int 1)" using ih(4) by simp
  have sb: "\<bar>real_of_int 1\<bar> \<le> 2 ^ 52" by simp
  note t = tick_playing[OF ih(3) ih(2) ih(1) s1 sb]
  have cl: "clamp_index N (int n + 1) = Suc n"
    using Suc.prems by (simp add: clamp_index_def)
  have "speed_value (fst (tick round_double ?st)) = Fin 1"
    using ih(4) by (simp add: tick_frame)
  moreover have "controller_inv N (fst (tick round_double ?st))"
    using ih(3) by (rule tick_inv)
  ultimately show ?case
    using t(2,3) Suc.prems unfolding r cl by auto
qed
lemma int_of_nat [simp]: "int_of (Fin (real k)) = int k"
  by (simp add: int_of_def)

lemma int_of_int [simp]: "int_of (Fin (of_int s)) = s"
  by (simp add: int_of_def)

text \<open>
  C2.  With a complete record of \<open>N\<close> samples installed, after any sequence of ticks,
  slider moves, clicks in a plot, play/pause clicks and choices of speed, whatever the
  numbers that come with them, the index is an integer within \<open>[0, N - 1]\<close>.  When the
  speed is a whole number of samples, forwards or backwards, a tick while Playing
  completes and moves the index by the speed, clamped to the range: \<open>Math.min\<close> clamps it
  to the last index and the slider to the first.  The tick leaves the controller Playing
  exactly when the index it reaches is below \<open>N - 1\<close>, and a tick while Stopped changes
  nothing.  Playing at speed 1 from index 0, the index after \<open>n < N\<close> ticks is \<open>n\<close>, and
  the controller is Stopped from the tick that reaches \<open>N - 1\<close>.
\<close>

theorem playback_index_in_range:
  assumes "controller_inv N st"
  shows "is_index N (slider_value (run round_double st evs))
         \<and> controller_inv N (run round_double st evs)
         \<and> (playing (run round_double st evs) \<and> is_step (speed_value (run round_double st evs)) \<longrightarrow>
              tick round_double (run round_double st evs)
                = (fst (tick round_double (run round_double st evs)), None)
              \<and> slider_value (fst (tick round_double (run round_double st evs)))
                  = Fin (real (clamp_index N
                      (int_of (slider_value (run round_double st evs))
                       + int_of (speed_value (run round_double st evs)))))
              \<and> playing (fst (tick round_double (run round_double st evs)))
                  = (clamp_index N
                       (int_of (slider_value (run round_double st evs))
                        + int_of (speed_value (run round_double st evs))) < N - 1))
         \<and> (\<not> playing (run round_double st evs) \<longrightarrow>
              tick round_double (run round_double st evs) = (run round_double st evs, None))
         \<and> (playing st \<and> slider_value st = Fin 0 \<and> speed_value st = Fin 1 \<longrightarrow>
              (\<forall>n < N. slider_value (run round_double st (replicate n Tick)) = Fin (real n)
                        \<and> playing (run round_double st (replicate n Tick)) = (n = 0 \<or> n < N - 1)))"
proof -
  let ?st = "run round_double st evs"
  have inv: "controller_inv N ?st" using assms by (rule run_inv)
  from inv obtain k where ks: "slider_value ?st = Fin (real k)" and k: "k < N"
    by (rule controller_invD)
  have a: "is_index N (slider_value ?st)" using ks k by simp
  have b: "playing ?st \<and> is_step (speed_value ?st) \<longrightarrow>
             tick round_double ?st = (fst (tick round_double ?st), None)
             \<and> slider_value (fst (tick round_double ?st))
                 = Fin (real (clamp_index N (int_of (slider_value ?st) + int_of (speed_value ?st))))
             \<and> playing (fst (tick round_double ?st))
                 = (clamp_index N (int_of (slider_value ?st) + int_of (speed_value ?st)) < N - 1)"
  proof (intro impI)
    assume h: "playing ?st \<and> is_step (speed_value ?st)"
    then obtain s where s: "\<bar>real_of_int s\<bar> \<le> 2 ^ 52" "speed_value ?st = Fin (of_int s)"
      by (auto elim: is_stepE)
    from h have p: "playing ?st" by simp
    show "tick round_double ?st = (fst (tick round_double ?st), None)
          \<and> slider_value (fst (tick round_double ?st))
              = Fin (real (clamp_index N (int_of (slider_value ?st) + int_of (speed_value ?st))))
          \<and> playing (fst (tick round_double ?st))
              = (clamp_index N (int_of (slider_value ?st) + int_of (speed_value ?st)) < N - 1)"
      using tick_playing[OF inv p ks s(2) s(1)] by (simp add: ks s(2))
  qed
  have c: "\<not> playing ?st \<longrightarrow> tick round_double ?st = (?st, None)"
    by (simp add: tick_not_playing)
  have d: "playing st \<and> slider_value st = Fin 0 \<and> speed_value st = Fin 1 \<longrightarrow>
             (\<forall>n < N. slider_value (run round_double st (replicate n Tick)) = Fin (real n)
                       \<and> playing (run round_double st (replicate n Tick)) = (n = 0 \<or> n < N - 1))"
    using run_ticks_speed_1[OF assms(1)] by blast
  show ?thesis using a inv b c d by blast
qed

lemma table_record_100:
  "traj_t (table_record table100) = map (\<lambda>i. Num (Fin (real i))) [0..<100]"
  "length (traj_pos (table_record table100)) = 100"
  "length (traj_vel (table_record table100)) = 100"
  "length (traj_quat (table_record table100)) = 100"
  by (simp_all add: table_record_def table100_def getCol_def Let_def)

lemma table_record_100_x: "map fst (traj_pos (table_record table100)) = replicate 100 (Num (Fin 0))"
proof -
  have "getCol table100 ''x'' = replicate 100 (Num (Fin 0))"
    by (simp add: table100_def getCol_def)
  moreover have "length (getCol table100 ''t'') = 100"
    by (simp add: table100_def getCol_def)
  ultimately have "map fst (traj_pos (table_record table100))
                     = map (elem_at (replicate 100 (Num (Fin 0)))) [0..<100]"
    by (simp add: table_record_fields comp_def)
  also have "\<dots> = replicate 100 (Num (Fin 0))"
    by (rule elem_at_all) simp
  finally show ?thesis .
qed

lemma complete_100: "complete_record (table_record table100)"
  by (simp add: complete_record_def table_record_100 table_record_100_x list_all_iff is_num_def)

lemma playing100_fields:
  "data playing100 = Some (table_record table100)"
  "euler playing100 = Some (computeEulerAll round_double (traj_quat (table_record table100)))"
  "playing playing100"
  "slider_value playing100 = Fin 0"
  "speed_value playing100 = Fin 1"
  "slider_max playing100 = Fin 99"
  by (simp_all add: playing100_def playPause_click_def setData_frame initial_state_def
      last_index_def table_record_100)

lemma controller_inv_100: "controller_inv 100 playing100"
  by (simp add: controller_inv_def playing100_fields complete_100 table_record_100 is_index_def)

theorem playback_index_in_range_witness:
  "controller_inv 100 playing100
   \<and> playing playing100 \<and> slider_value playing100 = Fin 0 \<and> speed_value playing100 = Fin 1
   \<and> slider_value (run round_double playing100 (replicate 98 Tick)) = Fin 98
   \<and> playing (run round_double playing100 (replicate 98 Tick))
   \<and> slider_value (run round_double playing100 (replicate 99 Tick)) = Fin 99
   \<and> \<not> playing (run round_double playing100 (replicate 99 Tick))
   \<and> tick round_double (run round_double playing100 (replicate 99 Tick))
       = (run round_double playing100 (replicate 99 Tick), None)"
proof -
  have h1: "controller_inv 100 playing100" by (rule controller_inv_100)
  note t = playback_index_in_range[OF h1, of "replicate 99 Tick"]
  from t have n: "\<forall>n < 100. slider_value (run round_double playing100 (replicate n Tick)) = Fin (real n)
                     \<and> playing (run round_double playing100 (replicate n Tick)) = (n = 0 \<or> n < 100 - 1)"
    by (simp add: playing100_fields)
  have n98: "slider_value (run round_double playing100 (replicate 98 Tick)) = Fin 98
             \<and> playing (run round_double playing100 (replicate 98 Tick))"
    using n[rule_format, of 98] by simp
  have n99: "slider_value (run round_double playing100 (replicate 99 Tick)) = Fin 99
             \<and> \<not> playing (run round_double playing100 (replicate 99 Tick))"
    using n[rule_format, of 99] by simp
  from t n99 have "tick round_double (run round_double playing100 (replicate 99 Tick))
       = (run round_double playing100 (replicate 99 Tick), None)"
    by blast
  then show ?thesis
    using h1 n98 n99 by (simp add: playing100_fields)
qed

text \<open>
  A backward speed at the first index: on the page with the two-sample file loaded, after
  play and the choice of speed \<open>-1\<close>, a tick computes \<open>-1\<close>, the slider holds 0, the tick
  completes and the controller goes on Playing at index 0.
\<close>

lemma controller_inv_loaded: "controller_inv 2 loaded_state"
  by (simp add: controller_inv_def loaded_state_fields loadCSV_required is_index_def
      complete_record_def is_num_def)

lemma backward_tick_at_first_index:
  "tick round_double (run round_double loaded_state [PlayPause, SetSpeed (Fin (- 1))])
     = (run round_double loaded_state [PlayPause, SetSpeed (Fin (- 1)), Tick], None)
   \<and> slider_value (run round_double loaded_state [PlayPause, SetSpeed (Fin (- 1)), Tick]) = Fin 0
   \<and> playing (run round_double loaded_state [PlayPause, SetSpeed (Fin (- 1)), Tick])"
proof -
  let ?st = "run round_double loaded_state [PlayPause, SetSpeed (Fin (- 1))]"
  have inv: "controller_inv 2 ?st" using controller_inv_loaded by (rule run_inv)
  have f: "playing ?st" "slider_value ?st = Fin (real 0)" "speed_value ?st = Fin (of_int (- 1))"
    by (simp_all add: run_def playPause_click_def loaded_state_fields)
  have sb: "\<bar>real_of_int (- 1)\<bar> \<le> 2 ^ 52" by simp
  note t = tick_playing[OF inv f sb]
  have r: "run round_double loaded_state [PlayPause, SetSpeed (Fin (- 1)), Tick] = fst (tick round_double ?st)"
    by (simp add: run_def)
  show ?thesis
    unfolding r using t by (simp add: clamp_index_def)
qed
section \<open>Trajectory loader: a missing required column\<close>

text \<open>
  C1, as amended.  Neither loader checks for required columns.  When a position,
  velocity or quaternion column is absent, both loaders return a record in which this
  channel is \<open>undefined\<close> at every one of the samples: as many as the text has data rows,
  as many as the table has times.  The handler installs the record the parser returns,
  with its Euler angles, whatever is on the page.  It shows no error message when the
  record is complete, with a time and a first position component for every sample, and
  has at least one sample.
\<close>

theorem missing_required_column_loads:
  assumes "name \<in> set required_columns" and "name \<noteq> ''t''"
  shows "(name \<notin> set (csv_headers text) \<longrightarrow>
            channel name (loadCSV num text) = replicate (length (csv_rows num text)) Undefined)
         \<and> (decode blob = Inr table \<and> map_of table name = None \<longrightarrow>
              loadParquet decode blob = Inr (table_record table)
              \<and> channel name (table_record table)
                  = replicate (length (getCol table ''t'')) Undefined)
         \<and> (parse_file num decode f = Inr p \<longrightarrow>
              data (fileInput_change rd num decode st (Some f)) = Some p
              \<and> euler (fileInput_change rd num decode st (Some f))
                  = Some (computeEulerAll rd (traj_quat p)))
         \<and> (parse_file num decode f = Inr p \<and> complete_record p \<and> traj_t p \<noteq> [] \<longrightarrow>
              alerts (fileInput_change rd num decode st (Some f)) = alerts st)"
proof -
  have n: "name \<in> set required_columns \<or> name \<in> set rate_columns"
    using assms(1) by simp
  have a: "name \<notin> set (csv_headers text) \<longrightarrow>
            channel name (loadCSV num text) = replicate (length (csv_rows num text)) Undefined"
    using channel_absent_loadCSV[OF n] by (simp add: loadCSV_lengths)
  have b: "decode blob = Inr table \<and> map_of table name = None \<longrightarrow>
              loadParquet decode blob = Inr (table_record table)
              \<and> channel name (table_record table)
                  = replicate (length (getCol table ''t'')) Undefined"
    using channel_absent_table_record[OF n assms(2)] by (simp add: loadParquet_def table_record_t)
  have c: "parse_file num decode f = Inr p \<longrightarrow>
              data (fileInput_change rd num decode st (Some f)) = Some p
              \<and> euler (fileInput_change rd num decode st (Some f))
                  = Some (computeEulerAll rd (traj_quat p))"
    by (simp add: fileInput_change_data)
  have d: "parse_file num decode f = Inr p \<and> complete_record p \<and> traj_t p \<noteq> [] \<longrightarrow>
              alerts (fileInput_change rd num decode st (Some f)) = alerts st"
    by (simp add: fileInput_change_installs(1) setData_frame)
  show ?thesis using a b c d by blast
qed

theorem missing_required_column_loads_witness:
  "''qw'' \<in> set required_columns \<and> ''qw'' \<noteq> ''t'' \<and> ''qw'' \<notin> set (csv_headers csv_no_quat)
   \<and> length (csv_rows num_digits csv_no_quat) = 2
   \<and> channel ''qw'' (loadCSV num_digits csv_no_quat) = [Undefined, Undefined]
   \<and> parse_file num_digits no_decoder (''run.csv'', csv_required_only)
       = Inr (loadCSV num_digits csv_required_only)
   \<and> complete_record (loadCSV num_digits csv_required_only)
   \<and> traj_t (loadCSV num_digits csv_required_only) \<noteq> []
   \<and> data (fileInput_change round_double num_digits no_decoder
             (fileInput_change round_double num_digits no_decoder (initial_state (Fin (3 / 2)))
                (Some (''run.csv'', csv_no_quat)))
             (Some (''run.csv'', csv_required_only)))
       = Some (loadCSV num_digits csv_required_only)
   \<and> alerts (fileInput_change round_double num_digits no_decoder
               (fileInput_change round_double num_digits no_decoder (initial_state (Fin (3 / 2)))
                  (Some (''run.csv'', csv_no_quat)))
               (Some (''run.csv'', csv_required_only)))
       = alerts (fileInput_change round_double num_digits no_decoder (initial_state (Fin (3 / 2)))
                  (Some (''run.csv'', csv_no_quat)))"
proof -
  have h1: "''qw'' \<in> set required_columns" and h2: "''qw'' \<noteq> ''t''"
    by (simp_all add: required_columns_def)
  have h3: "''qw'' \<notin> set (csv_headers csv_no_quat)"
    by (simp add: csv_headers_no_quat)
  have h4: "parse_file num_digits no_decoder (''run.csv'', csv_required_only)
              = Inr (loadCSV num_digits csv_required_only)"
    by (rule parse_run_csv)
  have h5: "traj_t (loadCSV num_digits csv_required_only) \<noteq> []"
    by (simp add: loadCSV_required)
  have l: "length (csv_rows num_digits csv_no_quat) = 2"
    by (simp add: csv_rows_no_quat)
  note t = missing_required_column_loads[OF h1 h2, of csv_no_quat num_digits no_decoder "[]" "[]"
      "(''run.csv'', csv_required_only)" "loadCSV num_digits csv_required_only" round_double
      "fileInput_change round_double num_digits no_decoder (initial_state (Fin (3 / 2)))
         (Some (''run.csv'', csv_no_quat))"]
  show ?thesis
    using h1 h2 h3 h4 h5 complete_required t
    by (simp add: l numeral_2_eq_2)
qed

text \<open>
  A file without the quaternion columns is loaded like any other: the parser returns a
  record, the handler installs it and shows no message.
\<close>

theorem missing_required_column_loads_counterexample:
  "''qw'' \<notin> set (csv_headers csv_no_quat) \<and> ''qx'' \<notin> set (csv_headers csv_no_quat)
   \<and> ''qy'' \<notin> set (csv_headers csv_no_quat) \<and> ''qz'' \<notin> set (csv_headers csv_no_quat)
   \<and> parse_file num_digits no_decoder (''run.csv'', csv_no_quat) = Inr (loadCSV num_digits csv_no_quat)
   \<and> data (fileInput_change round_double num_digits no_decoder (initial_state (Fin (3 / 2)))
             (Some (''run.csv'', csv_no_quat))) = Some (loadCSV num_digits csv_no_quat)
   \<and> traj_quat (loadCSV num_digits csv_no_quat)
       = [(Undefined, Undefined, Undefined, Undefined), (Undefined, Undefined, Undefined, Undefined)]
   \<and> alerts (fileInput_change round_double num_digits no_decoder (initial_state (Fin (3 / 2)))
               (Some (''run.csv'', csv_no_quat))) = []"
proof -
  have p: "parse_file num_digits no_decoder (''run.csv'', csv_no_quat) = Inr (loadCSV num_digits csv_no_quat)"
    by (rule parse_run_csv)
  have n: "traj_t (loadCSV num_digits csv_no_quat) \<noteq> []"
    by (simp add: loadCSV_no_quat)
  note i = fileInput_change_installs[OF p complete_no_quat n, of round_double "initial_state (Fin (3 / 2))"]
  show ?thesis
    using p i(2,4) by (simp add: csv_headers_no_quat loadCSV_no_quat initial_state_def)
qed

text \<open>
  When the time column is the one that is missing, the handler does show a message, but
  only after \<open>setData\<close> has replaced the record: the exception comes from
  \<open>data.t[0].toFixed\<close>, two statements after the assignment to \<open>data\<close>.
\<close>

lemma setData_throws_after_install:
  assumes "array_get (traj_t p) (Fin 0) = None \<or> array_get (traj_t p) (Fin 0) = Some Undefined"
  shows "setData rd p st =
           (st\<lparr>data := Some p, euler := Some (computeEulerAll rd (traj_quat p)),
               slider_max := last_index p, slider_value := Fin 0\<rparr>, Some TypeError)"
  using assms by (auto simp: setData_def Let_def)

text \<open>
  When the column \<open>x\<close> is the one that is missing, the record is installed as well, and
  the handler shows a message: the first pose update throws in the camera's \<open>lookAt\<close>.
\<close>

lemma missing_x_column_alert:
  "data (fileInput_change round_double num_digits no_decoder (initial_state (Fin (3 / 2)))
           (Some (''run.csv'', csv_no_x))) = Some (loadCSV num_digits csv_no_x)
   \<and> alerts (fileInput_change round_double num_digits no_decoder (initial_state (Fin (3 / 2)))
               (Some (''run.csv'', csv_no_x))) = [''Failed to load file: TypeError'']"
proof -
  let ?p = "loadCSV num_digits csv_no_x"
  let ?st = "initial_state (Fin (3 / 2))"
  have p: "parse_file num_digits no_decoder (''run.csv'', csv_no_x) = Inr ?p"
    by (rule parse_run_csv)
  have "snd (setData round_double ?p ?st) = Some TypeError"
    by (rule setData_throws_lookAt[where ?t0.0 = "Fin 0" and ts = "[Num (Fin 1)]"])
      (simp_all add: loadCSV_no_x)
  then obtain st' where s: "setData round_double ?p ?st = (st', Some TypeError)"
    by (metis prod.collapse)
  then have "alerts st' = []"
    using setData_frame(7)[of round_double ?p ?st] by (simp add: initial_state_def)
  then have "alerts (fileInput_change round_double num_digits no_decoder ?st (Some (''run.csv'', csv_no_x)))
               = [''Failed to load file: TypeError'']"
    using p s by (simp add: fileInput_change_def)
  then show ?thesis
    using fileInput_change_data(1)[OF p] by simp
qed
section \<open>Trajectory loader: absent optional columns\<close>

lemma csv_has_header:
  assumes "csv_has num text c"
  shows "c \<in> set (csv_headers text)"
proof (rule ccontr)
  assume "c \<notin> set (csv_headers text)"
  then have "header_index (csv_headers text) c = None" by (rule header_index_None)
  with assms show False by (simp add: csv_has_def)
qed









section \<open>Attitude instrument: the heading\<close>

lemma arctan_le_self:
  assumes "0 \<le> x"
  shows "arctan x \<le> x"
proof -
  have "(\<lambda>u. u - arctan u) 0 \<le> (\<lambda>u. u - arctan u) x"
  proof (rule DERIV_nonneg_imp_nondecreasing[OF assms])
    fix u :: real
    assume "0 \<le> u" "u \<le> x"
    have "((\<lambda>u. u - arctan u) has_real_derivative (1 - inverse (1 + u\<^sup>2))) (at u)"
      by (auto intro!: derivative_eq_intros)
    moreover have "0 \<le> 1 - inverse (1 + u\<^sup>2)"
      by (simp add: inverse_le_1_iff)
    ultimately show "\<exists>y. ((\<lambda>u. u - arctan u) has_real_derivative y) (at u) \<and> 0 \<le> y"
      by blast
  qed
  then show ?thesis by simp
qed

lemma round_double_0_01: "round_double (1 / 100) = Fin (5764607523034235 / 2 ^ 59)"
  by (rule round_double_normal[where e = "- 7" and n = "5764607523034235", THEN trans])
    (simp_all add: rd_eval)

lemma default_to_Num [simp]: "default_to d (Num n) = n"
  by (simp add: default_to_def)

lemma forward_world_upright: "forward_world round_double q_upright = (Fin 0, Fin 0, Fin 1)"
  by (simp add: forward_world_def q_upright_def normalize_def applyQuaternion_def Let_def js_sub_def)

lemma navball_heading_upright: "navball_heading round_double q_upright = HDG (Fin 0)"
  by (simp add: navball_heading_def forward_world_upright Let_def js_gt_def round_double_0_01
      atan2_def Math_PI_def trunc_def)

text \<open>
  A sample whose quaternion components are all \<open>undefined\<close> is shown like the upright
  rocket: the constructor's defaults make it the identity.
\<close>

lemma navball_heading_undefined:
  "navball_heading round_double (Undefined, Undefined, Undefined, Undefined) = HDG (Fin 0)"
proof -
  have "forward_world round_double (Undefined, Undefined, Undefined, Undefined)
          = forward_world round_double q_upright"
    by (simp add: forward_world_def q_upright_def default_to_def)
  then show ?thesis
    using navball_heading_upright by (simp add: navball_heading_def)
qed

lemma forward_world_tilt:
  "forward_world exact q_tilt = (Fin (- (2000 / 1000001)), Fin 0, Fin (999999 / 1000001))"
proof -
  define a :: real where "a = 1 / sqrt (1000001 / 1000000)"
  have aa: "a * a = 1000000 / 1000001"
  proof -
    have "a * a = 1 / (sqrt (1000001 / 1000000) * sqrt (1000001 / 1000000))"
      by (simp add: a_def)
    also have "\<dots> = 1 / (1000001 / 1000000)"
      by (simp only: real_sqrt_mult_self abs_divide abs_numeral)
    finally show ?thesis by simp
  qed
  have n: "normalize exact (Fin 0, Fin (- (1 / 1000)), Fin 0, Fin 1) = (Fin 0, Fin (- (1 / 1000) * a), Fin 0, Fin a)"
    by (simp add: normalize_def exact_def Let_def a_def)
  have x: "a * (2 * (- (1 / 1000) * a)) = - (2000 / 1000001)"
  proof -
    have "a * (2 * (- (1 / 1000) * a)) = - (2 / 1000) * (a * a)" by simp
    then show ?thesis by (simp add: aa)
  qed
  have z: "1 - (- (1 / 1000) * a) * (2 * (- (1 / 1000) * a)) = 999999 / 1000001"
  proof -
    have "1 - (- (1 / 1000) * a) * (2 * (- (1 / 1000) * a)) = 1 - (2 / 1000000) * (a * a)" by simp
    then show ?thesis by (simp add: aa)
  qed
  have "applyQuaternion exact (Fin 0, Fin 0, Fin 1) (Fin 0, Fin (- (1 / 1000) * a), Fin 0, Fin a)
          = (Fin (a * (2 * (- (1 / 1000) * a))), Fin 0,
             Fin (1 - (- (1 / 1000) * a) * (2 * (- (1 / 1000) * a))))"
    by (simp add: applyQuaternion_def exact_def Let_def js_sub_def)
  then show ?thesis
    by (simp add: forward_world_def q_tilt_def n x z aa)
qed

lemma navball_heading_tilt: "navball_heading exact q_tilt = HDG (Fin 360)"
proof -
  define th :: real where "th = arctan (2000 / 999999)"
  define c :: real where "c = 884279719003555 / 2 ^ 48"
  define h where "h = - th * 180 / c + 360"
  have th: "0 < th" "th \<le> 2000 / 999999"
    using arctan_le_self[of "2000 / 999999"] by (simp_all add: th_def)
  have c: "3 < c" by (simp add: c_def)
  have "th * 180 / c \<le> (2000 / 999999) * 180 / 3"
    using th c by (intro frac_le mult_right_mono) auto
  also have "\<dots> < 1 / 2" by simp
  finally have u: "th * 180 / c < 1 / 2" .
  have l: "0 < th * 180 / c" using th c by simp
  have h: "359 + 1 / 2 < h" "h < 360" using u l by (simp_all add: h_def)
  have at: "atan2 (- (2000 / 1000001)) (999999 / 1000001) = - th"
    by (simp add: atan2_def th_def arctan_minus[symmetric])
  have p: "(1::real) / 100 < sqrt (- (2000 / 1000001) * - (2000 / 1000001) + 999999 / 1000001 * (999999 / 1000001))"
  proof -
    have "(1::real) / 100 < sqrt ((1 / 2)\<^sup>2)" by simp
    also have "\<dots> \<le> sqrt (- (2000 / 1000001) * - (2000 / 1000001) + 999999 / 1000001 * (999999 / 1000001))"
      by (subst real_sqrt_le_iff) (simp add: power2_eq_square)
    finally show ?thesis .
  qed
  have m: "trunc (h / 360) = 0"
    using h by (simp add: trunc_def floor_eq_iff)
  have r: "\<lfloor>h + 1 / 2\<rfloor> = 360"
    using h by (simp add: floor_eq_iff)
  have "navball_heading exact q_tilt = HDG (Math_round (js_mod (Fin h) (Fin 360)))"
    using p
    by (simp add: navball_heading_def forward_world_tilt Let_def js_gt_def exact_def at
        Math_PI_def h_def c_def)
  then show ?thesis
    by (simp add: m r)
qed

text \<open>
  C8.  The heading is taken in the x-z plane, but the viewer's world has z up: the
  rocket's long axis is its body z axis and the ground is the x-y plane.  With the
  rocket upright the forward axis is \<open>(0, 0, 1)\<close>, straight up; its horizontal
  projection has length 0, and the instrument shows heading 0 instead of ``unavailable''.
  And the number shown is the rounded angle: for the rocket tilted about a tenth of a degree
  about y the angle is just below 360 and the text reads 360, outside \<open>[0, 360)\<close>.
\<close>

theorem heading_of_vertical_rocket:
  "forward_world round_double q_upright = (Fin 0, Fin 0, Fin 1)
   \<and> Math_hypot round_double (Fin 0) (Fin 0) = Fin 0
   \<and> navball_heading round_double q_upright = HDG (Fin 0)
   \<and> navball_heading exact q_tilt = HDG (Fin 360)"
  by (simp add: forward_world_upright navball_heading_upright navball_heading_tilt)

end
